theory Spec2Isabelle
  imports Main "HOL-Library.Word"
begin

unbundle bit_operations_syntax

section \<open>Errors, bytes and the enumeration registry\<close>

text \<open>
  A shallow embedding of \<^verbatim>\<open>swshtools.py\<close>. Byte buffers (\<^verbatim>\<open>bytes\<close>, \<^verbatim>\<open>bytearray\<close>) are
  lists of 8-bit words, Python integers are \<^typ>\<open>int\<close>, and every exception the code can
  raise on typed input is a value: \<^verbatim>\<open>IndexError\<close> (list or buffer subscript out of range),
  \<^verbatim>\<open>ValueError\<close> (\<^verbatim>\<open>list.index\<close> of an absent name, \<^verbatim>\<open>bytes.fromhex\<close> of a malformed
  string) and \<^verbatim>\<open>struct.error\<close>.
\<close>

type_synonym byte = "8 word"

datatype error = IndexError | ValueError | StructError

text \<open>
  Of these, only \<^verbatim>\<open>IndexError\<close> is a subclass of Python's \<^verbatim>\<open>LookupError\<close>; \<^verbatim>\<open>ValueError\<close> and
  \<^verbatim>\<open>struct.error\<close> are not.
\<close>

fun is_LookupError :: "error \<Rightarrow> bool" where
  "is_LookupError IndexError = True"
| "is_LookupError ValueError = False"
| "is_LookupError StructError = False"

definition ebind :: "error + 'a \<Rightarrow> ('a \<Rightarrow> error + 'b) \<Rightarrow> error + 'b" where
  "ebind m f = (case m of Inl e \<Rightarrow> Inl e | Inr x \<Rightarrow> f x)"

lemma ebind_cong [fundef_cong]:
  "m = m' \<Longrightarrow> (\<And>x. m' = Inr x \<Longrightarrow> f x = f' x) \<Longrightarrow> ebind m f = ebind m' f'"
  by (cases m') (simp_all add: ebind_def)

text \<open>
  \<^verbatim>\<open>__CONSTANTS__\<close> is read from \<^verbatim>\<open>constants.json\<close>, which is not part of the sources: the
  registry is a parameter \<open>c\<close> of every function, a table from the fourteen categories listed
  in the source to their ordered name lists.
\<close>

datatype category =
  Pokemon | Moves | Types | Abilities | Items | Egg_groups | Growth_types | Dex_colors
  | Tms | Trs | Move_tutors | Armor_tutors | Evolution_types | Genders

type_synonym constants = "category \<Rightarrow> string list"

text \<open>Python list subscript \<^verbatim>\<open>xs[i]\<close>: a negative index counts from the end.\<close>

definition getitem :: "'a list \<Rightarrow> int \<Rightarrow> error + 'a" where
  "getitem xs i =
     (if 0 \<le> i \<and> i < int (length xs) then Inr (xs ! nat i)
      else if i < 0 \<and> - int (length xs) \<le> i then Inr (xs ! nat (int (length xs) + i))
      else Inl IndexError)"

text \<open>Python \<^verbatim>\<open>xs.index(x)\<close>: the first position holding \<open>x\<close>, compared with \<^verbatim>\<open>==\<close>.\<close>

fun list_index :: "'a list \<Rightarrow> 'a \<Rightarrow> nat option" where
  "list_index [] x = None"
| "list_index (y # ys) x = (if y = x then Some 0 else map_option Suc (list_index ys x))"

definition cnstname :: "constants \<Rightarrow> category \<Rightarrow> int \<Rightarrow> error + string" where
  "cnstname c category cval = getitem (c category) cval"

definition cnstval :: "constants \<Rightarrow> category \<Rightarrow> string \<Rightarrow> error + int" where
  "cnstval c category cname =
     (case list_index (c category) cname of None \<Rightarrow> Inl ValueError | Some i \<Rightarrow> Inr (int i))"

section \<open>The struct module\<close>

text \<open>
  The format characters the source uses, all under the little-endian prefix \<^verbatim>\<open><\<close> (standard
  sizes, no alignment): \<^verbatim>\<open>B\<close>, \<^verbatim>\<open>H\<close>, \<^verbatim>\<open>I\<close>, \<^verbatim>\<open>ns\<close>, \<^verbatim>\<open>x\<close> and \<^verbatim>\<open>?\<close>.
\<close>

datatype fmt = Fmt_B | Fmt_H | Fmt_I | Fmt_s nat | Fmt_x | Fmt_bool

datatype sval = VInt int | VBytes "byte list" | VBool bool

fun le_bytes :: "nat \<Rightarrow> int \<Rightarrow> byte list" where
  "le_bytes 0 v = []"
| "le_bytes (Suc n) v = word_of_int v # le_bytes n (v div 256)"

fun le_int :: "byte list \<Rightarrow> int" where
  "le_int [] = 0"
| "le_int (b # bs) = uint b + 256 * le_int bs"

fun fmt_size :: "fmt \<Rightarrow> nat" where
  "fmt_size Fmt_B = 1"
| "fmt_size Fmt_H = 2"
| "fmt_size Fmt_I = 4"
| "fmt_size (Fmt_s n) = n"
| "fmt_size Fmt_x = 1"
| "fmt_size Fmt_bool = 1"

definition calcsize :: "fmt list \<Rightarrow> nat" where
  "calcsize fs = sum_list (map fmt_size fs)"

text \<open>
  Packing one value: an integer outside the range of its format is \<^verbatim>\<open>struct.error\<close>, a
  byte string is cut or padded with NUL bytes to the field width.
\<close>

fun pack_value :: "fmt \<Rightarrow> sval \<Rightarrow> error + byte list" where
  "pack_value Fmt_B (VInt v) = (if 0 \<le> v \<and> v < 256 then Inr (le_bytes 1 v) else Inl StructError)"
| "pack_value Fmt_H (VInt v) = (if 0 \<le> v \<and> v < 65536 then Inr (le_bytes 2 v) else Inl StructError)"
| "pack_value Fmt_I (VInt v) =
     (if 0 \<le> v \<and> v < 4294967296 then Inr (le_bytes 4 v) else Inl StructError)"
| "pack_value (Fmt_s n) (VBytes bs) = Inr (take n bs @ replicate (n - length bs) 0)"
| "pack_value Fmt_bool (VBool b) = Inr [if b then 1 else 0]"
| "pack_value _ _ = Inl StructError"

fun unpack_value :: "fmt \<Rightarrow> byte list \<Rightarrow> sval" where
  "unpack_value (Fmt_s n) bs = VBytes bs"
| "unpack_value Fmt_bool bs = VBool (le_int bs \<noteq> 0)"
| "unpack_value _ bs = VInt (le_int bs)"

fun struct_pack :: "fmt list \<Rightarrow> sval list \<Rightarrow> error + byte list" where
  "struct_pack [] vs = (if vs = [] then Inr [] else Inl StructError)"
| "struct_pack (f # fs) vs =
     (if f = Fmt_x then ebind (struct_pack fs vs) (\<lambda>rest. Inr (0 # rest))
      else (case vs of
              [] \<Rightarrow> Inl StructError
            | v # vs' \<Rightarrow>
                ebind (pack_value f v) (\<lambda>bs.
                ebind (struct_pack fs vs') (\<lambda>rest. Inr (bs @ rest)))))"

fun struct_unpack :: "fmt list \<Rightarrow> byte list \<Rightarrow> sval list" where
  "struct_unpack [] bs = []"
| "struct_unpack (f # fs) bs =
     (if f = Fmt_x then struct_unpack fs (drop 1 bs)
      else unpack_value f (take (fmt_size f) bs) # struct_unpack fs (drop (fmt_size f) bs))"

text \<open>\<^verbatim>\<open>Struct.unpack_from(buffer, offset)\<close> and \<^verbatim>\<open>Struct.pack_into(buffer, offset, *values)\<close>.\<close>

definition unpack_from :: "fmt list \<Rightarrow> byte list \<Rightarrow> nat \<Rightarrow> error + sval list" where
  "unpack_from fs buffer offset =
     (if length buffer < offset + calcsize fs then Inl StructError
      else Inr (struct_unpack fs (take (calcsize fs) (drop offset buffer))))"

definition pack_into :: "fmt list \<Rightarrow> byte list \<Rightarrow> nat \<Rightarrow> sval list \<Rightarrow> error + byte list" where
  "pack_into fs buffer offset vs =
     (if length buffer < offset + calcsize fs then Inl StructError
      else ebind (struct_pack fs vs) (\<lambda>bs.
           Inr (take offset buffer @ bs @ drop (offset + calcsize fs) buffer)))"

text \<open>Reading the unpacked tuple by position.\<close>

definition int_at :: "sval list \<Rightarrow> nat \<Rightarrow> int" where
  "int_at vs i = (case vs ! i of VInt v \<Rightarrow> v | _ \<Rightarrow> 0)"

definition bytes_at :: "sval list \<Rightarrow> nat \<Rightarrow> byte list" where
  "bytes_at vs i = (case vs ! i of VBytes bs \<Rightarrow> bs | _ \<Rightarrow> [])"

definition bool_at :: "sval list \<Rightarrow> nat \<Rightarrow> bool" where
  "bool_at vs i = (case vs ! i of VBool b \<Rightarrow> b | _ \<Rightarrow> False)"

section \<open>Hexadecimal text\<close>

definition hexdigits :: string where
  "hexdigits = ''0123456789abcdef''"

text \<open>\<^verbatim>\<open>bytes.hex()\<close>: two lowercase digits per byte.\<close>

definition hex :: "byte list \<Rightarrow> string" where
  "hex bs = concat (map (\<lambda>b. [hexdigits ! unat (drop_bit 4 b), hexdigits ! unat (b AND 15)]) bs)"

definition hexval :: "char \<Rightarrow> nat option" where
  "hexval ch =
     (let n = (of_char ch :: nat) in
      if 48 \<le> n \<and> n \<le> 57 then Some (n - 48)
      else if 97 \<le> n \<and> n \<le> 102 then Some (n - 87)
      else if 65 \<le> n \<and> n \<le> 70 then Some (n - 55)
      else None)"

definition isspace :: "char \<Rightarrow> bool" where
  "isspace ch = ((of_char ch :: nat) \<in> {9, 10, 11, 12, 13, 32})"

text \<open>
  \<^verbatim>\<open>bytes.fromhex(s)\<close>: ASCII whitespace is skipped before each pair of digits, anything else
  that is not a pair of hexadecimal digits is a \<^verbatim>\<open>ValueError\<close>.
\<close>

fun fromhex :: "string \<Rightarrow> error + byte list" where
  "fromhex [] = Inr []"
| "fromhex [ch] = (if isspace ch then Inr [] else Inl ValueError)"
| "fromhex (ch # d # rest) =
     (if isspace ch then fromhex (d # rest)
      else (case (hexval ch, hexval d) of
              (Some h, Some l) \<Rightarrow> ebind (fromhex rest) (\<lambda>bs. Inr (of_nat (16 * h + l) # bs))
            | _ \<Rightarrow> Inl ValueError))"

section \<open>Bit-flag learnsets\<close>

text \<open>
  \<^verbatim>\<open>parse_learnset_bits(consts_name, bits)\<close> appends to the entry's list, which is empty when
  the closure is called; the model returns the list. \<^verbatim>\<open>pack_learnset_bits(consts_name, size)\<close>
  reads \<^verbatim>\<open>entry[consts_name]\<close>, here the argument \<open>selected\<close>.
\<close>

fun parse_learnset_loop :: "byte list \<Rightarrow> (nat \<times> string) list \<Rightarrow> string list \<Rightarrow> error + string list" where
  "parse_learnset_loop bits [] acc = Inr acc"
| "parse_learnset_loop bits ((index, move) # rest) acc =
     (if drop_bit 3 index < length bits then
        (if bits ! drop_bit 3 index AND push_bit (index AND 7) 1 \<noteq> 0
         then parse_learnset_loop bits rest (acc @ [move])
         else parse_learnset_loop bits rest acc)
      else Inl IndexError)"

definition parse_learnset_bits :: "constants \<Rightarrow> category \<Rightarrow> byte list \<Rightarrow> error + string list" where
  "parse_learnset_bits c consts_name bits =
     parse_learnset_loop bits (enumerate 0 (c consts_name)) []"

fun pack_learnset_loop :: "string list \<Rightarrow> (nat \<times> string) list \<Rightarrow> byte list \<Rightarrow> error + byte list" where
  "pack_learnset_loop selected [] bits = Inr bits"
| "pack_learnset_loop selected ((index, move) # rest) bits =
     (if move \<in> set selected then
        (if drop_bit 3 index < length bits then
           pack_learnset_loop selected rest
             (bits[drop_bit 3 index := bits ! drop_bit 3 index OR push_bit (index AND 7) 1])
         else Inl IndexError)
      else pack_learnset_loop selected rest bits)"

definition pack_learnset_bits :: "constants \<Rightarrow> string list \<Rightarrow> category \<Rightarrow> nat \<Rightarrow> error + byte list" where
  "pack_learnset_bits c selected consts_name nbytes =
     pack_learnset_loop selected (enumerate 0 (c consts_name)) (replicate nbytes 0)"

section \<open>Creature records (personal\_total.bin)\<close>

record personal_entry =
  type_1 :: string
  type_2 :: string
  base_hp :: int
  base_atk :: int
  base_def :: int
  base_sp_atk :: int
  base_sp_def :: int
  base_spd :: int
  ability_1 :: string
  ability_2 :: string
  hidden_ability :: string
  height :: int
  weight :: int
  evs_hp :: int
  evs_atk :: int
  evs_def :: int
  evs_sp_atk :: int
  evs_sp_def :: int
  evs_spd :: int
  fail_telekinesis :: bool
  catch_rate :: int
  gender_rate :: int
  base_exp :: int
  growth_type :: string
  special_z_item :: string
  special_z_base_move :: string
  special_z_move :: string
  egg_group_1 :: string
  egg_group_2 :: string
  evolution_stage :: int
  egg_species :: string
  egg_form :: int
  hatch_cycles :: int
  base_friendship :: int
  common_item :: string
  rare_item :: string
  very_rare_item :: string
  first_form_index :: string
  form_count :: int
  icon_id :: int
  pokedex_number :: int
  armor_dex_number :: int
  crown_dex_number :: int
  dex_color :: string
  has_dex_entry :: bool
  is_visual_form :: bool
  is_regional_form :: bool
  can_not_dynamax :: bool
  tms :: "string list"
  trs :: "string list"
  move_tutors :: "string list"
  armor_tutors :: "string list"
  unk5E :: int
  unk60 :: string

text \<open>The blank record, given in the source as hexadecimal text.\<close>

definition BLANK_PRSNL_ENTRY :: "byte list" where
  "BLANK_PRSNL_ENTRY =
     (case fromhex
        (''000000000000000000000000000000000000FF0000000000000000000000000000400000000000'' @
         ''000000000000000000000000000000000000000000000000000000000000000000000000000000'' @
         ''000000000000000000000000000000000000010001000100010001000000000000000000000000'' @
         ''000000000000000000000000000001010101010101010101010101010100000000000000000000'' @
         ''0000000000000000000000000000000000000000'')
      of Inr bs \<Rightarrow> bs | Inl e \<Rightarrow> [])"

text \<open>The format \<^verbatim>\<open><10B4H6B4H2B3H16s4s16sI8H72s4s2H\<close>.\<close>

definition PERSONAL_ENTRY_STRUCT :: "fmt list" where
  "PERSONAL_ENTRY_STRUCT =
     replicate 10 Fmt_B @ replicate 4 Fmt_H @ replicate 6 Fmt_B @ replicate 4 Fmt_H @
     replicate 2 Fmt_B @ replicate 3 Fmt_H @ [Fmt_s 16, Fmt_s 4, Fmt_s 16, Fmt_I] @
     replicate 8 Fmt_H @ [Fmt_s 72, Fmt_s 4] @ replicate 2 Fmt_H"

text \<open>
  The tuple assignment of \<^verbatim>\<open>unpack_personal\<close>: the 45 unpacked values, by position, are the
  local variables of the loop body (here the fields of a record, prefixed \<open>raw_\<close>).
\<close>

record personal_raw =
  raw_base_hp :: int
  raw_base_atk :: int
  raw_base_def :: int
  raw_base_spd :: int
  raw_base_sp_atk :: int
  raw_base_sp_def :: int
  raw_type_1 :: int
  raw_type_2 :: int
  raw_catch_rate :: int
  raw_evolution_stage :: int
  raw_ev_yield :: int
  raw_common_item :: int
  raw_rare_item :: int
  raw_very_rare_item :: int
  raw_gender_rate :: int
  raw_hatch_cycles :: int
  raw_base_friendship :: int
  raw_growth_type :: int
  raw_egg_group_1 :: int
  raw_egg_group_2 :: int
  raw_ability_1 :: int
  raw_ability_2 :: int
  raw_hidden_ability :: int
  raw_first_form_index :: int
  raw_form_count :: int
  raw_pokedex_bits :: int
  raw_base_exp :: int
  raw_height :: int
  raw_weight :: int
  raw_tm_bits :: "byte list"
  raw_move_tutors_bits :: "byte list"
  raw_tr_bits :: "byte list"
  raw_icon_id :: int
  raw_special_z_item :: int
  raw_special_z_base_move :: int
  raw_special_z_move :: int
  raw_egg_species :: int
  raw_egg_form :: int
  raw_special_species_flags :: int
  raw_pokedex_number :: int
  raw_unk5E :: int
  raw_unk60 :: "byte list"
  raw_armor_tutors_bits :: "byte list"
  raw_armor_dex_number :: int
  raw_crown_dex_number :: int

definition personal_tuple :: "sval list \<Rightarrow> personal_raw" where
  "personal_tuple vals =
     \<lparr> raw_base_hp = int_at vals 0,
       raw_base_atk = int_at vals 1,
       raw_base_def = int_at vals 2,
       raw_base_spd = int_at vals 3,
       raw_base_sp_atk = int_at vals 4,
       raw_base_sp_def = int_at vals 5,
       raw_type_1 = int_at vals 6,
       raw_type_2 = int_at vals 7,
       raw_catch_rate = int_at vals 8,
       raw_evolution_stage = int_at vals 9,
       raw_ev_yield = int_at vals 10,
       raw_common_item = int_at vals 11,
       raw_rare_item = int_at vals 12,
       raw_very_rare_item = int_at vals 13,
       raw_gender_rate = int_at vals 14,
       raw_hatch_cycles = int_at vals 15,
       raw_base_friendship = int_at vals 16,
       raw_growth_type = int_at vals 17,
       raw_egg_group_1 = int_at vals 18,
       raw_egg_group_2 = int_at vals 19,
       raw_ability_1 = int_at vals 20,
       raw_ability_2 = int_at vals 21,
       raw_hidden_ability = int_at vals 22,
       raw_first_form_index = int_at vals 23,
       raw_form_count = int_at vals 24,
       raw_pokedex_bits = int_at vals 25,
       raw_base_exp = int_at vals 26,
       raw_height = int_at vals 27,
       raw_weight = int_at vals 28,
       raw_tm_bits = bytes_at vals 29,
       raw_move_tutors_bits = bytes_at vals 30,
       raw_tr_bits = bytes_at vals 31,
       raw_icon_id = int_at vals 32,
       raw_special_z_item = int_at vals 33,
       raw_special_z_base_move = int_at vals 34,
       raw_special_z_move = int_at vals 35,
       raw_egg_species = int_at vals 36,
       raw_egg_form = int_at vals 37,
       raw_special_species_flags = int_at vals 38,
       raw_pokedex_number = int_at vals 39,
       raw_unk5E = int_at vals 40,
       raw_unk60 = bytes_at vals 41,
       raw_armor_tutors_bits = bytes_at vals 42,
       raw_armor_dex_number = int_at vals 43,
       raw_crown_dex_number = int_at vals 44 \<rparr>"

definition personal_args :: "personal_raw \<Rightarrow> sval list" where
  "personal_args r =
     [VInt (raw_base_hp r), VInt (raw_base_atk r), VInt (raw_base_def r), VInt (raw_base_spd r),
      VInt (raw_base_sp_atk r), VInt (raw_base_sp_def r), VInt (raw_type_1 r),
      VInt (raw_type_2 r), VInt (raw_catch_rate r), VInt (raw_evolution_stage r),
      VInt (raw_ev_yield r), VInt (raw_common_item r), VInt (raw_rare_item r),
      VInt (raw_very_rare_item r), VInt (raw_gender_rate r), VInt (raw_hatch_cycles r),
      VInt (raw_base_friendship r), VInt (raw_growth_type r), VInt (raw_egg_group_1 r),
      VInt (raw_egg_group_2 r), VInt (raw_ability_1 r), VInt (raw_ability_2 r),
      VInt (raw_hidden_ability r), VInt (raw_first_form_index r), VInt (raw_form_count r),
      VInt (raw_pokedex_bits r), VInt (raw_base_exp r), VInt (raw_height r), VInt (raw_weight r),
      VBytes (raw_tm_bits r), VBytes (raw_move_tutors_bits r), VBytes (raw_tr_bits r),
      VInt (raw_icon_id r), VInt (raw_special_z_item r), VInt (raw_special_z_base_move r),
      VInt (raw_special_z_move r), VInt (raw_egg_species r), VInt (raw_egg_form r),
      VInt (raw_special_species_flags r), VInt (raw_pokedex_number r), VInt (raw_unk5E r),
      VBytes (raw_unk60 r), VBytes (raw_armor_tutors_bits r), VInt (raw_armor_dex_number r),
      VInt (raw_crown_dex_number r)]"

text \<open>
  The body of the loop of \<^verbatim>\<open>unpack_personal\<close> after the tuple assignment. The registry
  lookups run in the order of the source.
\<close>

definition personal_entry_of :: "constants \<Rightarrow> personal_raw \<Rightarrow> error + personal_entry" where
  "personal_entry_of c r =
     ebind (cnstname c Types (raw_type_1 r)) (\<lambda>type_1_name.
     ebind (cnstname c Types (raw_type_2 r)) (\<lambda>type_2_name.
     ebind (cnstname c Abilities (raw_ability_1 r)) (\<lambda>ability_1_name.
     ebind (cnstname c Abilities (raw_ability_2 r)) (\<lambda>ability_2_name.
     ebind (cnstname c Abilities (raw_hidden_ability r)) (\<lambda>hidden_ability_name.
     ebind (cnstname c Growth_types (raw_growth_type r)) (\<lambda>growth_type_name.
     ebind (cnstname c Items (raw_special_z_item r)) (\<lambda>special_z_item_name.
     ebind (cnstname c Moves (raw_special_z_base_move r)) (\<lambda>special_z_base_move_name.
     ebind (cnstname c Moves (raw_special_z_move r)) (\<lambda>special_z_move_name.
     ebind (cnstname c Egg_groups (raw_egg_group_1 r)) (\<lambda>egg_group_1_name.
     ebind (cnstname c Egg_groups (raw_egg_group_2 r)) (\<lambda>egg_group_2_name.
     ebind (cnstname c Pokemon (raw_egg_species r)) (\<lambda>egg_species_name.
     ebind (cnstname c Items (raw_common_item r)) (\<lambda>common_item_name.
     ebind (cnstname c Items (raw_rare_item r)) (\<lambda>rare_item_name.
     ebind (cnstname c Items (raw_very_rare_item r)) (\<lambda>very_rare_item_name.
     ebind (cnstname c Pokemon (raw_first_form_index r)) (\<lambda>first_form_index_name.
     ebind (cnstname c Dex_colors (raw_pokedex_bits r AND 0x3F)) (\<lambda>dex_color_name.
     ebind (parse_learnset_bits c Tms (raw_tm_bits r)) (\<lambda>tms_list.
     ebind (parse_learnset_bits c Trs (raw_tr_bits r)) (\<lambda>trs_list.
     ebind (parse_learnset_bits c Move_tutors (raw_move_tutors_bits r)) (\<lambda>move_tutors_list.
     ebind (parse_learnset_bits c Armor_tutors (raw_armor_tutors_bits r)) (\<lambda>armor_tutors_list.
     Inr \<lparr> type_1 = type_1_name,
           type_2 = type_2_name,
           base_hp = raw_base_hp r,
           base_atk = raw_base_atk r,
           base_def = raw_base_def r,
           base_sp_atk = raw_base_sp_atk r,
           base_sp_def = raw_base_sp_def r,
           base_spd = raw_base_spd r,
           ability_1 = ability_1_name,
           ability_2 = ability_2_name,
           hidden_ability = hidden_ability_name,
           height = raw_height r,
           weight = raw_weight r,
           evs_hp = raw_ev_yield r AND 3,
           evs_atk = drop_bit 2 (raw_ev_yield r) AND 3,
           evs_def = drop_bit 4 (raw_ev_yield r) AND 3,
           evs_sp_atk = drop_bit 8 (raw_ev_yield r) AND 3,
           evs_sp_def = drop_bit 10 (raw_ev_yield r) AND 3,
           evs_spd = drop_bit 6 (raw_ev_yield r) AND 3,
           fail_telekinesis = (drop_bit 12 (raw_ev_yield r) AND 3 \<noteq> 0),
           catch_rate = raw_catch_rate r,
           gender_rate = raw_gender_rate r,
           base_exp = raw_base_exp r,
           growth_type = growth_type_name,
           special_z_item = special_z_item_name,
           special_z_base_move = special_z_base_move_name,
           special_z_move = special_z_move_name,
           egg_group_1 = egg_group_1_name,
           egg_group_2 = egg_group_2_name,
           evolution_stage = raw_evolution_stage r,
           egg_species = egg_species_name,
           egg_form = raw_egg_form r,
           hatch_cycles = raw_hatch_cycles r,
           base_friendship = raw_base_friendship r,
           common_item = common_item_name,
           rare_item = rare_item_name,
           very_rare_item = very_rare_item_name,
           first_form_index = first_form_index_name,
           form_count = raw_form_count r,
           icon_id = raw_icon_id r,
           pokedex_number = raw_pokedex_number r,
           armor_dex_number = raw_armor_dex_number r,
           crown_dex_number = raw_crown_dex_number r,
           dex_color = dex_color_name,
           has_dex_entry = (raw_pokedex_bits r AND 0x40 \<noteq> 0),
           is_visual_form = (raw_pokedex_bits r AND 0x80 \<noteq> 0),
           is_regional_form = (raw_special_species_flags r AND 0x1 \<noteq> 0),
           can_not_dynamax = (raw_special_species_flags r AND 0x4 \<noteq> 0),
           tms = tms_list,
           trs = trs_list,
           move_tutors = move_tutors_list,
           armor_tutors = armor_tutors_list,
           unk5E = raw_unk5E r,
           unk60 = hex (raw_unk60 r) \<rparr>)))))))))))))))))))))"

text \<open>A Python dict keeps insertion order; assigning to a key that exists keeps its place.\<close>

fun dict_set :: "('k \<times> 'v) list \<Rightarrow> 'k \<Rightarrow> 'v \<Rightarrow> ('k \<times> 'v) list" where
  "dict_set [] k v = [(k, v)]"
| "dict_set ((k', v') # d) k v = (if k' = k then (k, v) # d else (k', v') # dict_set d k v)"

fun unpack_personal_loop ::
  "constants \<Rightarrow> byte list \<Rightarrow> nat list \<Rightarrow> (string \<times> personal_entry) list
     \<Rightarrow> error + (string \<times> personal_entry) list" where
  "unpack_personal_loop c buffer [] entries = Inr entries"
| "unpack_personal_loop c buffer (i # rest) entries =
     ebind (unpack_from PERSONAL_ENTRY_STRUCT buffer (i * 0xB0)) (\<lambda>vals.
     ebind (personal_entry_of c (personal_tuple vals)) (\<lambda>entry.
     ebind (cnstname c Pokemon (int i)) (\<lambda>name.
     unpack_personal_loop c buffer rest (dict_set entries name entry))))"

text \<open>
  \<^verbatim>\<open>unpack_personal\<close> without the file access: from the bytes read to the dict handed to the
  JSON writer.
\<close>

definition unpack_personal :: "constants \<Rightarrow> byte list \<Rightarrow> error + (string \<times> personal_entry) list" where
  "unpack_personal c buffer =
     unpack_personal_loop c buffer [0..<length buffer div 0xB0] []"

text \<open>
  The body of the loop of \<^verbatim>\<open>pack_personal\<close> up to the call of \<^verbatim>\<open>pack_into\<close>: the values passed
  to it, by position. The lookups and \<^verbatim>\<open>bytes.fromhex\<close> run in the order of the source.
\<close>

definition personal_raw_of :: "constants \<Rightarrow> personal_entry \<Rightarrow> error + personal_raw" where
  "personal_raw_of c entry =
     ebind (pack_learnset_bits c (tms entry) Tms 16) (\<lambda>tm_bits.
     ebind (pack_learnset_bits c (move_tutors entry) Move_tutors 4) (\<lambda>move_tutors_bits.
     ebind (pack_learnset_bits c (trs entry) Trs 16) (\<lambda>tr_bits.
     ebind (pack_learnset_bits c (armor_tutors entry) Armor_tutors 4) (\<lambda>armor_tutors_bits.
     ebind (cnstval c Types (type_1 entry)) (\<lambda>type_1_val.
     ebind (cnstval c Types (type_2 entry)) (\<lambda>type_2_val.
     ebind (cnstval c Items (common_item entry)) (\<lambda>common_item_val.
     ebind (cnstval c Items (rare_item entry)) (\<lambda>rare_item_val.
     ebind (cnstval c Items (very_rare_item entry)) (\<lambda>very_rare_item_val.
     ebind (cnstval c Growth_types (growth_type entry)) (\<lambda>growth_type_val.
     ebind (cnstval c Egg_groups (egg_group_1 entry)) (\<lambda>egg_group_1_val.
     ebind (cnstval c Egg_groups (egg_group_2 entry)) (\<lambda>egg_group_2_val.
     ebind (cnstval c Abilities (ability_1 entry)) (\<lambda>ability_1_val.
     ebind (cnstval c Abilities (ability_2 entry)) (\<lambda>ability_2_val.
     ebind (cnstval c Abilities (hidden_ability entry)) (\<lambda>hidden_ability_val.
     ebind (cnstval c Pokemon (first_form_index entry)) (\<lambda>first_form_index_val.
     ebind (cnstval c Dex_colors (dex_color entry)) (\<lambda>dex_color_val.
     ebind (cnstval c Items (special_z_item entry)) (\<lambda>special_z_item_val.
     ebind (cnstval c Moves (special_z_base_move entry)) (\<lambda>special_z_base_move_val.
     ebind (cnstval c Moves (special_z_move entry)) (\<lambda>special_z_move_val.
     ebind (cnstval c Pokemon (egg_species entry)) (\<lambda>egg_species_val.
     ebind (fromhex (unk60 entry)) (\<lambda>unk60_bytes.
     Inr \<lparr> raw_base_hp = base_hp entry,
           raw_base_atk = base_atk entry,
           raw_base_def = base_def entry,
           raw_base_spd = base_spd entry,
           raw_base_sp_atk = base_sp_atk entry,
           raw_base_sp_def = base_sp_def entry,
           raw_type_1 = type_1_val,
           raw_type_2 = type_2_val,
           raw_catch_rate = catch_rate entry,
           raw_evolution_stage = evolution_stage entry,
           raw_ev_yield =
             (evs_hp entry AND 3) OR push_bit 2 (evs_atk entry AND 3)
               OR push_bit 4 (evs_def entry AND 3) OR push_bit 6 (evs_spd entry AND 3)
               OR push_bit 8 (evs_sp_atk entry AND 3) OR push_bit 10 (evs_sp_def entry AND 3)
               OR push_bit 12 (if fail_telekinesis entry then 1 else 0),
           raw_common_item = common_item_val,
           raw_rare_item = rare_item_val,
           raw_very_rare_item = very_rare_item_val,
           raw_gender_rate = gender_rate entry,
           raw_hatch_cycles = hatch_cycles entry,
           raw_base_friendship = base_friendship entry,
           raw_growth_type = growth_type_val,
           raw_egg_group_1 = egg_group_1_val,
           raw_egg_group_2 = egg_group_2_val,
           raw_ability_1 = ability_1_val,
           raw_ability_2 = ability_2_val,
           raw_hidden_ability = hidden_ability_val,
           raw_first_form_index = first_form_index_val,
           raw_form_count = form_count entry,
           raw_pokedex_bits =
             dex_color_val OR (if has_dex_entry entry then 0x40 else 0)
               OR (if is_visual_form entry then 0x80 else 0),
           raw_base_exp = base_exp entry,
           raw_height = height entry,
           raw_weight = weight entry,
           raw_tm_bits = tm_bits,
           raw_move_tutors_bits = move_tutors_bits,
           raw_tr_bits = tr_bits,
           raw_icon_id = icon_id entry,
           raw_special_z_item = special_z_item_val,
           raw_special_z_base_move = special_z_base_move_val,
           raw_special_z_move = special_z_move_val,
           raw_egg_species = egg_species_val,
           raw_egg_form = egg_form entry,
           raw_special_species_flags =
             (if is_regional_form entry then 1 else 0) OR (if can_not_dynamax entry then 4 else 0),
           raw_pokedex_number = pokedex_number entry,
           raw_unk5E = unk5E entry,
           raw_unk60 = unk60_bytes,
           raw_armor_tutors_bits = armor_tutors_bits,
           raw_armor_dex_number = armor_dex_number entry,
           raw_crown_dex_number = crown_dex_number entry \<rparr>))))))))))))))))))))))"

text \<open>
  The loop of \<^verbatim>\<open>pack_personal\<close>: the entries are written one after the other from offset 0,
  in the order of the dict; the key \<^verbatim>\<open>pokemon_name\<close> is not used.
\<close>

fun pack_personal_loop ::
  "constants \<Rightarrow> (string \<times> personal_entry) list \<Rightarrow> byte list \<Rightarrow> nat \<Rightarrow> error + byte list" where
  "pack_personal_loop c [] buffer offset = Inr buffer"
| "pack_personal_loop c ((pokemon_name, entry) # rest) buffer offset =
     ebind (personal_raw_of c entry) (\<lambda>r.
     ebind (pack_into PERSONAL_ENTRY_STRUCT buffer offset (personal_args r)) (\<lambda>buffer'.
     pack_personal_loop c rest buffer' (offset + 0xB0)))"

definition pack_personal :: "constants \<Rightarrow> (string \<times> personal_entry) list \<Rightarrow> error + byte list" where
  "pack_personal c entries =
     pack_personal_loop c entries
       (concat (replicate (length (c Pokemon)) BLANK_PRSNL_ENTRY)) 0"

section \<open>Level-up learnsets (wazaoboe\_total.bin)\<close>

record move_entry =
  level :: int
  move :: string

text \<open>The inner loop \<^verbatim>\<open>for j in range(65)\<close>, with the number of slots still to read.\<close>

fun unpack_wazaoboe_slots ::
  "constants \<Rightarrow> byte list \<Rightarrow> nat \<Rightarrow> nat \<Rightarrow> move_entry list \<Rightarrow> error + move_entry list" where
  "unpack_wazaoboe_slots c buffer offset 0 moves_list = Inr moves_list"
| "unpack_wazaoboe_slots c buffer offset (Suc n) moves_list =
     ebind (unpack_from [Fmt_H, Fmt_H] buffer offset) (\<lambda>vals.
       if int_at vals 0 \<noteq> 65535 \<and> int_at vals 1 \<noteq> 65535 then
         ebind (cnstname c Moves (int_at vals 0)) (\<lambda>name.
         unpack_wazaoboe_slots c buffer (offset + 4) n
           (moves_list @ [\<lparr> level = int_at vals 1, move = name \<rparr>]))
       else unpack_wazaoboe_slots c buffer (offset + 4) n moves_list)"

fun unpack_wazaoboe_loop ::
  "constants \<Rightarrow> byte list \<Rightarrow> nat list \<Rightarrow> (string \<times> move_entry list) list
     \<Rightarrow> error + (string \<times> move_entry list) list" where
  "unpack_wazaoboe_loop c buffer [] entries = Inr entries"
| "unpack_wazaoboe_loop c buffer (i # rest) entries =
     ebind (unpack_wazaoboe_slots c buffer (i * 0x104) 65 []) (\<lambda>moves_list.
     ebind (getitem (c Pokemon) (int i)) (\<lambda>name.
     unpack_wazaoboe_loop c buffer rest (dict_set entries name moves_list)))"

definition unpack_wazaoboe :: "constants \<Rightarrow> byte list \<Rightarrow> error + (string \<times> move_entry list) list" where
  "unpack_wazaoboe c buffer =
     unpack_wazaoboe_loop c buffer [0..<length buffer div 0x104] []"

text \<open>The inner loop of \<^verbatim>\<open>pack_wazaoboe\<close> over the first \<^verbatim>\<open>num_entries\<close> moves.\<close>

fun pack_wazaoboe_moves ::
  "constants \<Rightarrow> move_entry list \<Rightarrow> byte list \<Rightarrow> nat \<Rightarrow> error + byte list" where
  "pack_wazaoboe_moves c [] buffer offset = Inr buffer"
| "pack_wazaoboe_moves c (entry # rest) buffer offset =
     ebind (cnstval c Moves (move entry)) (\<lambda>move_val.
     ebind (pack_into [Fmt_H, Fmt_H] buffer offset [VInt move_val, VInt (level entry)]) (\<lambda>buffer'.
     pack_wazaoboe_moves c rest buffer' (offset + 4)))"

definition warning :: "string \<Rightarrow> string" where
  "warning pokemon_name =
     ''Warning! You can have up to 65 level-up moves for '' @ pokemon_name @
     '', remaining ones will be dropped!''"

text \<open>
  The state of the outer loop is the buffer and the lines printed so far. An exception ends
  the run: the model then returns the error alone.
\<close>

fun pack_wazaoboe_loop ::
  "constants \<Rightarrow> (string \<times> move_entry list) list \<Rightarrow> byte list \<times> string list
     \<Rightarrow> error + (byte list \<times> string list)" where
  "pack_wazaoboe_loop c [] st = Inr st"
| "pack_wazaoboe_loop c ((pokemon_name, move_list) # rest) st =
     ebind (cnstval c Pokemon pokemon_name) (\<lambda>index.
     let offset = nat index * 0x104;
         num_entries = (if length move_list > 65 then 65 else length move_list);
         printed = (if length move_list > 65 then snd st @ [warning pokemon_name] else snd st)
     in ebind (pack_wazaoboe_moves c (take num_entries move_list) (fst st) offset) (\<lambda>buffer'.
        pack_wazaoboe_loop c rest (buffer', printed)))"

definition pack_wazaoboe ::
  "constants \<Rightarrow> (string \<times> move_entry list) list \<Rightarrow> error + (byte list \<times> string list)" where
  "pack_wazaoboe c entries =
     pack_wazaoboe_loop c entries (replicate (length (c Pokemon) * 0x104) 0xFF, [])"

section \<open>The icon list (pokecaplist.bin)\<close>

record pokecap_entry =
  cap_icon_id :: int
  cap_form_id :: int
  cap_gender_type :: string
  cap_is_gigantamax :: bool

text \<open>The format \<^verbatim>\<open><3Hx?\<close>.\<close>

definition POKECAPLIST_ENTRY_STRUCT :: "fmt list" where
  "POKECAPLIST_ENTRY_STRUCT = [Fmt_H, Fmt_H, Fmt_H, Fmt_x, Fmt_bool]"

function unpack_pokecaplist_loop ::
  "constants \<Rightarrow> byte list \<Rightarrow> nat \<Rightarrow> pokecap_entry list \<Rightarrow> error + pokecap_entry list" where
  "unpack_pokecaplist_loop c buffer offset entries =
     (if offset < length buffer then
        ebind (unpack_from POKECAPLIST_ENTRY_STRUCT buffer offset) (\<lambda>vals.
        ebind (cnstname c Genders (int_at vals 2)) (\<lambda>gender_name.
        unpack_pokecaplist_loop c buffer (offset + 8)
          (entries @ [\<lparr> cap_icon_id = int_at vals 0, cap_form_id = int_at vals 1,
                        cap_gender_type = gender_name,
                        cap_is_gigantamax = bool_at vals 3 \<rparr>])))
      else Inr entries)"
  by pat_completeness auto
termination
  by (relation "measure (\<lambda>(c, buffer, offset, entries). length buffer - offset)") auto

definition unpack_pokecaplist :: "constants \<Rightarrow> byte list \<Rightarrow> error + pokecap_entry list" where
  "unpack_pokecaplist c buffer = unpack_pokecaplist_loop c buffer 0 []"

fun pack_pokecaplist_loop ::
  "constants \<Rightarrow> pokecap_entry list \<Rightarrow> byte list \<Rightarrow> nat \<Rightarrow> error + byte list" where
  "pack_pokecaplist_loop c [] buffer offset = Inr buffer"
| "pack_pokecaplist_loop c (entry # rest) buffer offset =
     ebind (cnstval c Genders (cap_gender_type entry)) (\<lambda>gender_type.
     ebind (pack_into POKECAPLIST_ENTRY_STRUCT buffer offset
              [VInt (cap_icon_id entry), VInt (cap_form_id entry), VInt gender_type,
               VBool (cap_is_gigantamax entry)]) (\<lambda>buffer'.
     pack_pokecaplist_loop c rest buffer' (offset + 8)))"

definition pack_pokecaplist :: "constants \<Rightarrow> pokecap_entry list \<Rightarrow> error + byte list" where
  "pack_pokecaplist c entries =
     pack_pokecaplist_loop c entries (replicate (length entries * 8) 0) 0"

section \<open>An example registry\<close>

text \<open>A small registry with all fourteen categories, for concrete runs of the codec.\<close>

definition example_constants :: constants where
  "example_constants category =
     (case category of
        Pokemon \<Rightarrow> [''Egg'', ''Bulbasaur'', ''Ivysaur'']
      | Moves \<Rightarrow> [''None'', ''Pound'', ''Tackle'']
      | Types \<Rightarrow> [''Normal'', ''Fire'']
      | Abilities \<Rightarrow> [''None'', ''Overgrow'']
      | Items \<Rightarrow> [''None'', ''Potion'']
      | Egg_groups \<Rightarrow> [''None'', ''Monster'']
      | Growth_types \<Rightarrow> [''Medium'', ''Slow'']
      | Dex_colors \<Rightarrow> [''Red'', ''Green'']
      | Tms \<Rightarrow> [''Pound'', ''Tackle'']
      | Trs \<Rightarrow> [''Tackle'']
      | Move_tutors \<Rightarrow> [''Pound'']
      | Armor_tutors \<Rightarrow> [''Tackle'', ''Pound'']
      | Evolution_types \<Rightarrow> [''None'']
      | Genders \<Rightarrow> [''Male'', ''Female''])"

text \<open>An entry over the example registry.\<close>

definition example_entry :: personal_entry where
  "example_entry =
     \<lparr> type_1 = ''Fire'', type_2 = ''Normal'',
       base_hp = 45, base_atk = 49, base_def = 49, base_sp_atk = 65, base_sp_def = 65,
       base_spd = 45,
       ability_1 = ''Overgrow'', ability_2 = ''None'', hidden_ability = ''Overgrow'',
       height = 7, weight = 69,
       evs_hp = 0, evs_atk = 1, evs_def = 2, evs_sp_atk = 3, evs_sp_def = 0, evs_spd = 1,
       fail_telekinesis = True,
       catch_rate = 45, gender_rate = 31, base_exp = 64,
       growth_type = ''Slow'',
       special_z_item = ''None'', special_z_base_move = ''None'', special_z_move = ''Pound'',
       egg_group_1 = ''Monster'', egg_group_2 = ''None'',
       evolution_stage = 1, egg_species = ''Bulbasaur'', egg_form = 0,
       hatch_cycles = 20, base_friendship = 50,
       common_item = ''None'', rare_item = ''Potion'', very_rare_item = ''None'',
       first_form_index = ''Egg'', form_count = 1, icon_id = 70000,
       pokedex_number = 1, armor_dex_number = 68, crown_dex_number = 300,
       dex_color = ''Green'', has_dex_entry = True, is_visual_form = False,
       is_regional_form = False, can_not_dynamax = True,
       tms = [''Pound'', ''Tackle''], trs = [''Tackle''], move_tutors = [],
       armor_tutors = [''Pound''],
       unk5E = 513, unk60 = replicate 144 (CHR ''0'') \<rparr>"

section \<open>Auxiliary predicates\<close>

text \<open>A computation that, when it fails, fails with the given error.\<close>

definition only_error :: "error \<Rightarrow> error + 'a \<Rightarrow> bool" where
  "only_error err m = (case m of Inl e \<Rightarrow> e = err | Inr x \<Rightarrow> True)"

text \<open>The values a format packs without error and unpacks to themselves.\<close>

fun conforms :: "fmt \<Rightarrow> sval \<Rightarrow> bool" where
  "conforms Fmt_B (VInt v) = (0 \<le> v \<and> v < 256)"
| "conforms Fmt_H (VInt v) = (0 \<le> v \<and> v < 65536)"
| "conforms Fmt_I (VInt v) = (0 \<le> v \<and> v < 4294967296)"
| "conforms (Fmt_s n) (VBytes bs) = (length bs = n)"
| "conforms Fmt_bool (VBool b) = True"
| "conforms _ _ = False"

fun conforms_all :: "fmt list \<Rightarrow> sval list \<Rightarrow> bool" where
  "conforms_all [] vs = (vs = [])"
| "conforms_all (f # fs) vs =
     (if f = Fmt_x then conforms_all fs vs
      else (case vs of [] \<Rightarrow> False | v # vs' \<Rightarrow> conforms f v \<and> conforms_all fs vs'))"

text \<open>
  The raw pair (move code, level code) of the 4-byte slot at an offset, and the pairs of
  \<open>n\<close> consecutive slots.
\<close>

definition slot_at :: "byte list \<Rightarrow> nat \<Rightarrow> int \<times> int" where
  "slot_at buffer offset =
     (le_int (take 2 (drop offset buffer)), le_int (take 2 (drop (offset + 2) buffer)))"

fun raw_slots :: "byte list \<Rightarrow> nat \<Rightarrow> nat \<Rightarrow> (int \<times> int) list" where
  "raw_slots buffer offset 0 = []"
| "raw_slots buffer offset (Suc n) = slot_at buffer offset # raw_slots buffer (offset + 4) n"

text \<open>
  What \<^verbatim>\<open>pack_wazaoboe\<close> writes for one move, the moves it can write, and the moves that a
  decode gives back (neither code is the sentinel); record \<open>j\<close> of a level-up blob; the
  position of a creature in the registry.
\<close>

definition encode_move :: "constants \<Rightarrow> move_entry \<Rightarrow> byte list" where
  "encode_move c e =
     le_bytes 2 (int (the (list_index (c Moves) (move e)))) @ le_bytes 2 (level e)"

definition packable_move :: "constants \<Rightarrow> move_entry \<Rightarrow> bool" where
  "packable_move c e =
     ((case list_index (c Moves) (move e) of None \<Rightarrow> False | Some i \<Rightarrow> i < 65536) \<and>
      0 \<le> level e \<and> level e < 65536)"


definition record_at :: "byte list \<Rightarrow> nat \<Rightarrow> byte list" where
  "record_at buffer j = take 0x104 (drop (j * 0x104) buffer)"

definition pokemon_index :: "constants \<Rightarrow> string \<Rightarrow> nat" where
  "pokemon_index c name = the (list_index (c Pokemon) name)"

text \<open>
  A raw code that \<^verbatim>\<open>cnstname\<close> and \<^verbatim>\<open>cnstval\<close> take to a name and back: it is in range and
  no earlier entry of the category has the same name. A learnset bit buffer that
  \<^verbatim>\<open>parse_learnset_bits\<close> and \<^verbatim>\<open>pack_learnset_bits\<close> take to a list of names and back: it has
  the width of the field, the master list fits, entries of the master list with the same
  name have the same bit, and the bits past the master list are clear.
\<close>

definition enum_code :: "constants \<Rightarrow> category \<Rightarrow> int \<Rightarrow> bool" where
  "enum_code c cat v =
     (0 \<le> v \<and> nat v < length (c cat) \<and> list_index (c cat) (c cat ! nat v) = Some (nat v))"

definition learnset_field :: "constants \<Rightarrow> category \<Rightarrow> nat \<Rightarrow> byte list \<Rightarrow> bool" where
  "learnset_field c cat n bits =
     (length bits = n \<and> length (c cat) \<le> 8 * n \<and>
      (\<forall>i < length (c cat). \<forall>j < length (c cat). c cat ! i = c cat ! j \<longrightarrow>
         (bit (bits ! (i div 8)) (i mod 8) \<longleftrightarrow> bit (bits ! (j div 8)) (j mod 8))) \<and>
      (\<forall>i < 8 * n. length (c cat) \<le> i \<longrightarrow> \<not> bit (bits ! (i div 8)) (i mod 8)))"

section \<open>Basic facts\<close>

lemma ebind_Inr [simp]: "ebind (Inr x) f = f x"
  by (simp add: ebind_def)

lemma ebind_Inl [simp]: "ebind (Inl e) f = Inl e"
  by (simp add: ebind_def)

lemma ebind_eq_Inr_iff: "ebind m f = Inr y \<longleftrightarrow> (\<exists>x. m = Inr x \<and> f x = Inr y)"
  by (cases m) simp_all

lemma list_index_None_iff: "list_index xs x = None \<longleftrightarrow> x \<notin> set xs"
  by (induction xs) auto

lemma list_index_Some_D: "list_index xs x = Some i \<Longrightarrow> i < length xs \<and> xs ! i = x"
  by (induction xs arbitrary: i) (auto split: if_splits)

lemma list_index_first: "list_index xs x = Some i \<Longrightarrow> j < i \<Longrightarrow> xs ! j \<noteq> x"
proof (induction xs arbitrary: i j)
  case Nil
  then show ?case by simp
next
  case (Cons y ys)
  then show ?case by (cases j) (auto split: if_splits)
qed

lemma list_index_nth_distinct: "distinct xs \<Longrightarrow> i < length xs \<Longrightarrow> list_index xs (xs ! i) = Some i"
proof (induction xs arbitrary: i)
  case Nil
  then show ?case by simp
next
  case (Cons y ys)
  then show ?case by (cases i) auto
qed

lemma list_index_mem: "x \<in> set xs \<Longrightarrow> \<exists>i. list_index xs x = Some i"
  using list_index_None_iff [of xs x] by (cases "list_index xs x") auto

lemma nat_drop_bit_3: "drop_bit 3 (n::nat) = n div 8"
  by (simp add: drop_bit_eq_div)

lemma nat_and_7: "(n::nat) AND 7 = n mod 8"
proof -
  have "n AND mask 3 = n mod 2 ^ 3"
    by (simp only: take_bit_eq_mask [symmetric] take_bit_eq_mod)
  then show ?thesis by (simp add: mask_eq_exp_minus_1)
qed

lemma byte_set_bit: "m < 8 \<Longrightarrow> bit ((b::byte) OR 2 ^ m) k \<longleftrightarrow> bit b k \<or> k = m"
  by (auto simp add: bit_or_iff bit_exp_iff)


lemma div_mod_8_eq: "(i::nat) div 8 = k div 8 \<and> i mod 8 = k mod 8 \<longleftrightarrow> i = k"
  by (metis div_mult_mod_eq)

lemma pack_learnset_loop_ok:
  "k + length xs \<le> 8 * length bits \<Longrightarrow>
   \<exists>bits'. pack_learnset_loop sel (enumerate k xs) bits = Inr bits' \<and> length bits' = length bits \<and>
     (\<forall>i < 8 * length bits. bit (bits' ! (i div 8)) (i mod 8) \<longleftrightarrow>
        bit (bits ! (i div 8)) (i mod 8) \<or> (k \<le> i \<and> i < k + length xs \<and> xs ! (i - k) \<in> set sel))"
proof (induction xs arbitrary: k bits)
  case Nil
  then show ?case by auto
next
  case (Cons x xs)
  show ?case
  proof (cases "x \<in> set sel")
    case False
    from Cons.prems have "Suc k + length xs \<le> 8 * length bits" by simp
    from Cons.IH [OF this] obtain bits' where
      b: "pack_learnset_loop sel (enumerate (Suc k) xs) bits = Inr bits'" "length bits' = length bits"
      and bi: "\<And>i. i < 8 * length bits \<Longrightarrow> bit (bits' ! (i div 8)) (i mod 8) \<longleftrightarrow>
        bit (bits ! (i div 8)) (i mod 8) \<or> (Suc k \<le> i \<and> i < Suc k + length xs \<and> xs ! (i - Suc k) \<in> set sel)"
      by blast
    have "bit (bits' ! (i div 8)) (i mod 8) \<longleftrightarrow>
        bit (bits ! (i div 8)) (i mod 8) \<or> (k \<le> i \<and> i < k + length (x # xs) \<and> (x # xs) ! (i - k) \<in> set sel)"
      if "i < 8 * length bits" for i
    proof (cases "i = k")
      case True
      with bi [OF that] False show ?thesis by simp
    next
      case neq: False
      have "k \<le> i \<Longrightarrow> (x # xs) ! (i - k) = xs ! (i - Suc k)"
        using neq by (simp add: nth_Cons')
      with bi [OF that] neq show ?thesis by auto
    qed
    with b False show ?thesis by simp
  next
    case True
    let ?bits = "bits[k div 8 := bits ! (k div 8) OR push_bit (k mod 8) 1]"
    from Cons.prems have kb: "k div 8 < length bits" by simp
    from Cons.prems have "Suc k + length xs \<le> 8 * length ?bits" by simp
    from Cons.IH [OF this] obtain bits' where
      b: "pack_learnset_loop sel (enumerate (Suc k) xs) ?bits = Inr bits'" "length bits' = length bits"
      and bi: "\<And>i. i < 8 * length bits \<Longrightarrow> bit (bits' ! (i div 8)) (i mod 8) \<longleftrightarrow>
        bit (?bits ! (i div 8)) (i mod 8) \<or> (Suc k \<le> i \<and> i < Suc k + length xs \<and> xs ! (i - Suc k) \<in> set sel)"
      by auto
    have upd: "bit (?bits ! (i div 8)) (i mod 8) \<longleftrightarrow> bit (bits ! (i div 8)) (i mod 8) \<or> i = k"
      if "i < 8 * length bits" for i
    proof (cases "i div 8 = k div 8")
      case True
      with kb show ?thesis
        using div_mod_8_eq [of i k] by (auto simp add: byte_set_bit)
    next
      case False
      then show ?thesis by auto
    qed
    have "bit (bits' ! (i div 8)) (i mod 8) \<longleftrightarrow>
        bit (bits ! (i div 8)) (i mod 8) \<or> (k \<le> i \<and> i < k + length (x # xs) \<and> (x # xs) ! (i - k) \<in> set sel)"
      if "i < 8 * length bits" for i
    proof (cases "i = k")
      case ik: True
      with bi [OF that] upd [OF that] True show ?thesis by simp
    next
      case neq: False
      have "k \<le> i \<Longrightarrow> (x # xs) ! (i - k) = xs ! (i - Suc k)"
        using neq by (simp add: nth_Cons')
      with bi [OF that] upd [OF that] neq show ?thesis by auto
    qed
    with b True kb show ?thesis by (simp add: nat_drop_bit_3 nat_and_7)
  qed
qed

lemma parse_learnset_loop_ok:
  "k + length xs \<le> 8 * length bits \<Longrightarrow>
   parse_learnset_loop bits (enumerate k xs) acc =
     Inr (acc @ map snd (filter (\<lambda>(i, m). bit (bits ! (i div 8)) (i mod 8)) (enumerate k xs)))"
proof (induction xs arbitrary: k acc)
  case Nil
  then show ?case by simp
next
  case (Cons x xs)
  from Cons.prems have "k div 8 < length bits" "Suc k + length xs \<le> 8 * length bits" by simp_all
  with Cons.IH [of "Suc k"] show ?case
    by (simp add: nat_drop_bit_3 nat_and_7 push_bit_of_1 and_exp_eq_0_iff_not_bit)
qed

lemma parse_learnset_loop_error:
  "8 * length bits < k + length xs \<Longrightarrow> xs \<noteq> [] \<Longrightarrow>
   parse_learnset_loop bits (enumerate k xs) acc = Inl IndexError"
proof (induction xs arbitrary: k acc)
  case Nil
  then show ?case by simp
next
  case (Cons x xs)
  show ?case
  proof (cases "k div 8 < length bits")
    case True
    with Cons.prems have "8 * length bits < Suc k + length xs" "xs \<noteq> []" by auto
    with True Cons.IH [of "Suc k"] show ?thesis
      by (simp add: nat_drop_bit_3)
  next
    case False
    then show ?thesis by (simp add: nat_drop_bit_3)
  qed
qed

lemma map_snd_filter_enumerate:
  "map snd (filter (\<lambda>(i, m). Q m) (enumerate k xs)) = filter Q xs"
  by (induction xs arbitrary: k) simp_all


lemma pack_learnset_bits_ok:
  assumes "length (c cat) \<le> 8 * n"
  shows "\<exists>bits. pack_learnset_bits c sel cat n = Inr bits \<and> length bits = n \<and>
     (\<forall>i < 8 * n. bit (bits ! (i div 8)) (i mod 8) \<longleftrightarrow> i < length (c cat) \<and> c cat ! i \<in> set sel)"
proof -
  have "0 + length (c cat) \<le> 8 * length (replicate n (0::byte))"
    using assms by simp
  from pack_learnset_loop_ok [OF this, of sel] show ?thesis
    by (auto simp add: pack_learnset_bits_def)
qed

lemma parse_learnset_bits_filter:
  assumes "length (c cat) \<le> 8 * length bits"
  shows "parse_learnset_bits c cat bits =
     Inr (map snd (filter (\<lambda>(i, m). bit (bits ! (i div 8)) (i mod 8)) (enumerate 0 (c cat))))"
  using parse_learnset_loop_ok [of 0 "c cat" bits "[]"] assms
  by (simp add: parse_learnset_bits_def)

lemma parse_pack_learnset_bits:
  assumes len: "length (c cat) \<le> 8 * n"
    and pack: "pack_learnset_bits c sel cat n = Inr bits"
  shows "parse_learnset_bits c cat bits = Inr (filter (\<lambda>m. m \<in> set sel) (c cat))"
proof -
  from pack_learnset_bits_ok [where c = c and cat = cat and n = n and sel = sel] len pack
  have n: "length bits = n"
    and bi: "\<And>i. i < 8 * n \<Longrightarrow>
      bit (bits ! (i div 8)) (i mod 8) \<longleftrightarrow> i < length (c cat) \<and> c cat ! i \<in> set sel"
    by auto
  have "filter (\<lambda>(i, m). bit (bits ! (i div 8)) (i mod 8)) (enumerate 0 (c cat)) =
        filter (\<lambda>(i, m). m \<in> set sel) (enumerate 0 (c cat))"
  proof (rule filter_cong [OF refl])
    fix p assume pin: "p \<in> set (enumerate 0 (c cat))"
    obtain i m where p: "p = (i, m)" by (cases p)
    from pin p have i: "i < length (c cat)" and m: "c cat ! i = m"
      by (simp_all add: in_set_enumerate_eq)
    from i len have "i < 8 * n" by simp
    from bi [OF this] i m p
    show "(case p of (i, m) \<Rightarrow> bit (bits ! (i div 8)) (i mod 8)) = (case p of (i, m) \<Rightarrow> m \<in> set sel)"
      by simp
  qed
  with parse_learnset_bits_filter [of c cat bits] len n show ?thesis
    by (simp add: map_snd_filter_enumerate)
qed

lemma pack_learnset_loop_set:
  "set sel' = set sel \<Longrightarrow> pack_learnset_loop sel' es bits = pack_learnset_loop sel es bits"
  by (induction sel es bits rule: pack_learnset_loop.induct) simp_all

section \<open>Facts about the registry\<close>

lemma getitem_nat: "i < length xs \<Longrightarrow> getitem xs (int i) = Inr (xs ! i)"
  by (simp add: getitem_def)

lemma getitem_high: "int (length xs) \<le> i \<Longrightarrow> getitem xs i = Inl IndexError"
  by (simp add: getitem_def)

lemma getitem_low: "i < - int (length xs) \<Longrightarrow> getitem xs i = Inl IndexError"
  by (simp add: getitem_def)

lemma getitem_error: "getitem xs i = Inl e \<Longrightarrow> e = IndexError"
  by (simp add: getitem_def split: if_splits)

lemma cnstname_nat: "i < length (c cat) \<Longrightarrow> cnstname c cat (int i) = Inr (c cat ! i)"
  by (simp add: cnstname_def getitem_nat)

lemma cnstname_error: "cnstname c cat i = Inl e \<Longrightarrow> e = IndexError"
  by (simp add: cnstname_def getitem_error)

lemma cnstval_absent: "name \<notin> set (c cat) \<Longrightarrow> cnstval c cat name = Inl ValueError"
  by (simp add: cnstval_def list_index_None_iff [THEN iffD2])

lemma cnstval_error: "cnstval c cat name = Inl e \<Longrightarrow> e = ValueError"
  by (simp add: cnstval_def split: option.splits)

lemma cnstval_Inr_D:
  "cnstval c cat name = Inr v \<Longrightarrow> 0 \<le> v \<and> nat v < length (c cat) \<and> c cat ! nat v = name"
  by (auto simp add: cnstval_def split: option.splits dest: list_index_Some_D)

lemma cnstval_mem:
  "name \<in> set (c cat) \<Longrightarrow> \<exists>i. cnstval c cat name = Inr (int i) \<and> i < length (c cat) \<and> c cat ! i = name"
  using list_index_mem [of name "c cat"]
  by (auto simp add: cnstval_def dest: list_index_Some_D)

lemma cnstname_cnstval:
  "cnstval c cat name = Inr v \<Longrightarrow> cnstname c cat v = Inr name"
  using cnstval_Inr_D [of c cat name v] cnstname_nat [of "nat v" c cat] by simp

lemma cnstval_cnstname:
  "distinct (c cat) \<Longrightarrow> i < length (c cat) \<Longrightarrow> cnstname c cat (int i) = Inr name \<Longrightarrow>
   cnstval c cat name = Inr (int i)"
  using list_index_nth_distinct [of "c cat" i]
  by (auto simp add: cnstname_nat cnstval_def)

lemma only_error_ebind:
  "only_error err m \<Longrightarrow> (\<And>x. only_error err (f x)) \<Longrightarrow> only_error err (ebind m f)"
  by (cases m) (simp_all add: only_error_def)

lemma only_error_Inr [simp]: "only_error err (Inr x)"
  by (simp add: only_error_def)

lemma only_error_D: "only_error err m \<Longrightarrow> m = Inl e \<Longrightarrow> e = err"
  by (simp add: only_error_def)

lemma only_error_cnstname: "only_error IndexError (cnstname c cat i)"
  by (cases "cnstname c cat i") (auto simp add: only_error_def dest: cnstname_error)

lemma parse_learnset_loop_only: "only_error IndexError (parse_learnset_loop bits es acc)"
  by (induction bits es acc rule: parse_learnset_loop.induct) (simp_all add: only_error_def)

lemma only_error_parse: "only_error IndexError (parse_learnset_bits c cat bits)"
  by (simp add: parse_learnset_bits_def parse_learnset_loop_only)

lemma only_error_personal_entry_of: "only_error IndexError (personal_entry_of c r)"
  unfolding personal_entry_of_def
  by (intro only_error_ebind only_error_cnstname only_error_parse only_error_Inr)

section \<open>How the creature codec fails\<close>

lemma calcsize_PERSONAL [simp]: "calcsize PERSONAL_ENTRY_STRUCT = 176"
  by (simp add: calcsize_def PERSONAL_ENTRY_STRUCT_def sum_list_replicate)

lemma length_BLANK [simp]: "length BLANK_PRSNL_ENTRY = 176"
  by code_simp

lemma unpack_from_ok:
  "offset + calcsize fs \<le> length buffer \<Longrightarrow>
   unpack_from fs buffer offset = Inr (struct_unpack fs (take (calcsize fs) (drop offset buffer)))"
  by (simp add: unpack_from_def)

lemma unpack_personal_loop_only:
  "(\<forall>i \<in> set idxs. i * 176 + 176 \<le> length buffer) \<Longrightarrow>
   only_error IndexError (unpack_personal_loop c buffer idxs entries)"
proof (induction idxs arbitrary: entries)
  case Nil
  then show ?case by simp
next
  case (Cons i rest)
  then have "i * 176 + calcsize PERSONAL_ENTRY_STRUCT \<le> length buffer" by simp
  from unpack_from_ok [OF this] Cons show ?case
    by (auto intro!: only_error_ebind only_error_cnstname only_error_personal_entry_of)
qed

lemma personal_entry_of_bad_type:
  "int (length (c Types)) \<le> raw_type_1 r \<Longrightarrow> personal_entry_of c r = Inl IndexError"
  by (simp add: personal_entry_of_def cnstname_def getitem_high)

lemma personal_entry_of_bad_type_2:
  assumes "int (length (c Types)) \<le> raw_type_2 r"
  shows "personal_entry_of c r = Inl IndexError"
proof (cases "cnstname c Types (raw_type_1 r)")
  case (Inl e)
  then have "e = IndexError" by (rule cnstname_error)
  with Inl show ?thesis by (simp add: personal_entry_of_def)
next
  case (Inr name)
  from assms have "cnstname c Types (raw_type_2 r) = Inl IndexError"
    by (simp add: cnstname_def getitem_high)
  with Inr show ?thesis by (simp add: personal_entry_of_def)
qed

lemma unpack_personal_loop_bad_type:
  assumes "\<forall>i \<in> set idxs. i * 176 + 176 \<le> length buffer"
    and "k \<in> set idxs"
    and "unpack_from PERSONAL_ENTRY_STRUCT buffer (k * 176) = Inr vals"
    and "personal_entry_of c (personal_tuple vals) = Inl IndexError"
  shows "unpack_personal_loop c buffer idxs entries = Inl IndexError"
  using assms(1,2)
proof (induction idxs arbitrary: entries)
  case Nil
  then show ?case by simp
next
  case (Cons i rest)
  show ?case
  proof (cases "i = k")
    case True
    with assms(3,4) show ?thesis
      by simp
  next
    case False
    with Cons.prems have k: "k \<in> set rest" and r: "\<forall>i \<in> set rest. i * 176 + 176 \<le> length buffer"
      by auto
    note IH = Cons.IH [OF r k]
    from Cons.prems have "i * 176 + calcsize PERSONAL_ENTRY_STRUCT \<le> length buffer" by simp
    note u = unpack_from_ok [OF this]
    let ?r = "personal_tuple (struct_unpack PERSONAL_ENTRY_STRUCT
        (take (calcsize PERSONAL_ENTRY_STRUCT) (drop (i * 176) buffer)))"
    show ?thesis
    proof (cases "personal_entry_of c ?r")
      case (Inl e)
      with only_error_personal_entry_of [of c ?r] have "e = IndexError"
        by (simp add: only_error_def)
      with Inl u show ?thesis by simp
    next
      case (Inr entry)
      show ?thesis
      proof (cases "cnstname c Pokemon (int i)")
        case (Inl e)
        then have "e = IndexError" by (rule cnstname_error)
        with Inl Inr u show ?thesis by simp
      next
        case Inr2: (Inr name)
        with Inr u IH show ?thesis by simp
      qed
    qed
  qed
qed

lemma only_error_pack_learnset_loop: "only_error IndexError (pack_learnset_loop sel es bits)"
  by (induction sel es bits rule: pack_learnset_loop.induct) (simp_all add: only_error_def)

lemma only_error_pack_learnset: "only_error IndexError (pack_learnset_bits c sel cat n)"
  by (simp add: pack_learnset_bits_def only_error_pack_learnset_loop)

lemma personal_raw_of_absent_type:
  assumes "type_1 entry \<notin> set (c Types)"
  shows "personal_raw_of c entry = Inl ValueError \<or> personal_raw_of c entry = Inl IndexError"
proof -
  have v: "cnstval c Types (type_1 entry) = Inl ValueError"
    using assms by (rule cnstval_absent)
  have "\<And>sel cat n. (\<exists>b. pack_learnset_bits c sel cat n = Inr b) \<or>
      pack_learnset_bits c sel cat n = Inl IndexError"
    subgoal for sel cat n
      using only_error_pack_learnset [of c sel cat n]
      by (cases "pack_learnset_bits c sel cat n") (simp_all add: only_error_def)
    done
  note p = this
  from p [of "tms entry" Tms 16] p [of "move_tutors entry" Move_tutors 4]
    p [of "trs entry" Trs 16] p [of "armor_tutors entry" Armor_tutors 4] v
  show ?thesis
    unfolding personal_raw_of_def by (elim disjE exE) simp_all
qed

lemma personal_raw_of_absent_type_fit:
  assumes "type_1 entry \<notin> set (c Types)"
    and "length (c Tms) \<le> 128" "length (c Trs) \<le> 128"
    and "length (c Move_tutors) \<le> 32" "length (c Armor_tutors) \<le> 32"
  shows "personal_raw_of c entry = Inl ValueError"
proof -
  have v: "cnstval c Types (type_1 entry) = Inl ValueError"
    using assms(1) by (rule cnstval_absent)
  from pack_learnset_bits_ok [where c = c and cat = Tms and n = 16 and sel = "tms entry"]
    pack_learnset_bits_ok [where c = c and cat = Move_tutors and n = 4 and sel = "move_tutors entry"]
    pack_learnset_bits_ok [where c = c and cat = Trs and n = 16 and sel = "trs entry"]
    pack_learnset_bits_ok [where c = c and cat = Armor_tutors and n = 4 and sel = "armor_tutors entry"]
    assms(2-5) v
  show ?thesis
    unfolding personal_raw_of_def by (elim exE conjE | simp)+
qed

lemma pack_personal_loop_absent_type:
  assumes "(pokemon_name, entry) \<in> set entries" and "type_1 entry \<notin> set (c Types)"
  shows "\<exists>err. pack_personal_loop c entries buffer offset = Inl err"
  using assms(1)
proof (induction entries arbitrary: buffer offset)
  case Nil
  then show ?case by simp
next
  case (Cons p rest)
  obtain n e where p: "p = (n, e)" by (cases p)
  show ?case
  proof (cases "p = (pokemon_name, entry)")
    case True
    with p personal_raw_of_absent_type [where c = c and entry = entry] assms(2) show ?thesis by auto
  next
    case False
    with Cons.prems have "(pokemon_name, entry) \<in> set rest" by simp
    note IH = Cons.IH [OF this]
    show ?thesis
    proof (cases "personal_raw_of c e")
      case (Inl err)
      with p show ?thesis by simp
    next
      case (Inr r)
      show ?thesis
      proof (cases "pack_into PERSONAL_ENTRY_STRUCT buffer offset (personal_args r)")
        case (Inl err)
        with Inr p show ?thesis by simp
      next
        case Inr2: (Inr buffer')
        with Inr p IH [of buffer' "offset + 176"] show ?thesis by simp
      qed
    qed
  qed
qed

lemma pack_personal_loop_append:
  "pack_personal_loop c (pre @ rest) buffer offset =
     ebind (pack_personal_loop c pre buffer offset) (\<lambda>buffer'.
       pack_personal_loop c rest buffer' (offset + 0xB0 * length pre))"
proof (induction pre arbitrary: buffer offset)
  case Nil
  then show ?case by simp
next
  case (Cons p pre)
  obtain n e where p: "p = (n, e)" by (cases p)
  show ?case
  proof (cases "personal_raw_of c e")
    case (Inl err)
    with p show ?thesis by simp
  next
    case (Inr r)
    show ?thesis
    proof (cases "pack_into PERSONAL_ENTRY_STRUCT buffer offset (personal_args r)")
      case (Inl err)
      with Inr p show ?thesis by simp
    next
      case Inr2: (Inr buffer')
      with Inr p Cons.IH [of buffer' "offset + 176"] show ?thesis
        by (simp add: add.assoc)
    qed
  qed
qed

section \<open>Facts about the struct module\<close>

lemma length_le_bytes [simp]: "length (le_bytes n v) = n"
  by (induction n arbitrary: v) simp_all

lemma le_int_nonneg: "0 \<le> le_int bs"
  by (induction bs) simp_all

lemma le_int_less: "le_int bs < 256 ^ length bs"
proof (induction bs)
  case Nil
  then show ?case by simp
next
  case (Cons b bs)
  have "uint b < 256"
    using uint_bounded [of b] by simp
  with Cons show ?case by simp
qed

lemma uint_byte_of_int: "uint (word_of_int v :: byte) = v mod 256"
  by (simp add: uint_word_of_int take_bit_eq_mod)

lemma le_int_le_bytes: "0 \<le> v \<Longrightarrow> v < 256 ^ n \<Longrightarrow> le_int (le_bytes n v) = v"
proof (induction n arbitrary: v)
  case 0
  then show ?case by simp
next
  case (Suc n)
  from Suc.prems have "0 \<le> v div 256" "v div 256 < 256 ^ n"
    by (simp_all add: div_less_iff_less_mult mult.commute)
  from Suc.IH [OF this] show ?case
    by (simp add: uint_byte_of_int)
qed

lemma byte_256: "(256 :: byte) = 0"
  by (simp add: word_eq_iff_unsigned [where ?'a = int] unsigned_numeral take_bit_eq_mod)

lemma byte_of_int_add: "(word_of_int (uint b + 256 * x) :: byte) = b"
proof -
  have "(word_of_int (uint b + 256 * x) :: byte) = word_of_int (uint b) + 256 * word_of_int x"
    by (simp only: of_int_add of_int_mult of_int_numeral)
  also have "\<dots> = b"
    by (simp only: byte_256 mult_zero_left add_0_right word_of_int_uint)
  finally show ?thesis .
qed

lemma le_bytes_le_int: "le_bytes (length bs) (le_int bs) = bs"
proof (induction bs)
  case Nil
  then show ?case by simp
next
  case (Cons b bs)
  have "0 \<le> uint b" "uint b < 256"
    using uint_bounded [of b] by simp_all
  then have "(uint b + 256 * le_int bs) div 256 = le_int bs"
    by simp
  with Cons show ?case by (simp only: le_int.simps le_bytes.simps length_Cons byte_of_int_add)
qed

lemma le_int_le_bytes_1: "0 \<le> v \<Longrightarrow> v < 256 \<Longrightarrow> le_int (le_bytes (Suc 0) v) = v"
  using le_int_le_bytes [of v "Suc 0"] by simp

lemma le_int_le_bytes_2: "0 \<le> v \<Longrightarrow> v < 65536 \<Longrightarrow> le_int (le_bytes 2 v) = v"
  using le_int_le_bytes [of v 2] by simp

lemma le_int_le_bytes_4: "0 \<le> v \<Longrightarrow> v < 4294967296 \<Longrightarrow> le_int (le_bytes 4 v) = v"
  using le_int_le_bytes [of v 4] by simp

lemma pack_value_conforms:
  "conforms f v \<Longrightarrow> \<exists>bs. pack_value f v = Inr bs \<and> length bs = fmt_size f \<and> unpack_value f bs = v"
  by (cases "(f, v)" rule: conforms.cases)
    (simp_all add: le_int_le_bytes_1 le_int_le_bytes_2 le_int_le_bytes_4 del: le_bytes.simps)

lemma struct_pack_conforms:
  "conforms_all fs vs \<Longrightarrow>
   \<exists>bs. struct_pack fs vs = Inr bs \<and> length bs = calcsize fs \<and> struct_unpack fs bs = vs"
proof (induction fs arbitrary: vs)
  case Nil
  then show ?case by (simp add: calcsize_def)
next
  case (Cons f fs)
  show ?case
  proof (cases "f = Fmt_x")
    case True
    with Cons.prems have "conforms_all fs vs" by simp
    from Cons.IH [OF this] True show ?thesis
      by (auto simp add: calcsize_def)
  next
    case False
    with Cons.prems obtain v vs' where vs: "vs = v # vs'" and c: "conforms f v" "conforms_all fs vs'"
      by (cases vs) auto
    from pack_value_conforms [OF c(1)] obtain b where
      b: "pack_value f v = Inr b" "length b = fmt_size f" "unpack_value f b = v"
      by blast
    from Cons.IH [OF c(2)] obtain bs where
      bs: "struct_pack fs vs' = Inr bs" "length bs = calcsize fs" "struct_unpack fs bs = vs'"
      by blast
    from False vs b bs show ?thesis
      by (simp add: calcsize_def)
  qed
qed

lemma unpack_value_conforms:
  "length bs = fmt_size f \<Longrightarrow> f \<noteq> Fmt_x \<Longrightarrow> conforms f (unpack_value f bs)"
  using le_int_nonneg [of bs] le_int_less [of bs]
  by (cases f) simp_all

lemma pack_unpack_value:
  "length bs = fmt_size f \<Longrightarrow> f \<noteq> Fmt_x \<Longrightarrow> f \<noteq> Fmt_bool \<Longrightarrow>
   pack_value f (unpack_value f bs) = Inr bs"
  using le_int_nonneg [of bs] le_int_less [of bs] le_bytes_le_int [of bs]
  by (cases f) auto

lemma struct_unpack_conforms:
  "length bs = calcsize fs \<Longrightarrow> conforms_all fs (struct_unpack fs bs)"
proof (induction fs arbitrary: bs)
  case Nil
  then show ?case by simp
next
  case (Cons f fs)
  from Cons.prems have l: "length (drop (fmt_size f) bs) = calcsize fs"
    and t: "length (take (fmt_size f) bs) = fmt_size f"
    by (simp_all add: calcsize_def)
  show ?case
  proof (cases "f = Fmt_x")
    case True
    with Cons.IH [OF l] show ?thesis by simp
  next
    case False
    with Cons.IH [OF l] unpack_value_conforms [OF t False] show ?thesis by simp
  qed
qed

lemma struct_pack_unpack:
  "length bs = calcsize fs \<Longrightarrow> Fmt_x \<notin> set fs \<Longrightarrow> Fmt_bool \<notin> set fs \<Longrightarrow>
   struct_pack fs (struct_unpack fs bs) = Inr bs"
proof (induction fs arbitrary: bs)
  case Nil
  then show ?case by (simp add: calcsize_def)
next
  case (Cons f fs)
  from Cons.prems have l: "length (drop (fmt_size f) bs) = calcsize fs"
    and t: "length (take (fmt_size f) bs) = fmt_size f"
    by (simp_all add: calcsize_def)
  from Cons.prems have f: "f \<noteq> Fmt_x" "f \<noteq> Fmt_bool" "Fmt_x \<notin> set fs" "Fmt_bool \<notin> set fs"
    by auto
  from Cons.IH [OF l f(3,4)] pack_unpack_value [OF t f(1,2)] f(1) show ?case
    by simp
qed

lemma pack_into_conforms:
  assumes "conforms_all fs vs" and "offset + calcsize fs \<le> length buffer"
  shows "\<exists>bs. struct_pack fs vs = Inr bs \<and> length bs = calcsize fs \<and> struct_unpack fs bs = vs \<and>
     pack_into fs buffer offset vs = Inr (take offset buffer @ bs @ drop (offset + calcsize fs) buffer)"
  using struct_pack_conforms [OF assms(1)] assms(2)
  by (auto simp add: pack_into_def)

lemma unpack_from_segment:
  "length pre = offset \<Longrightarrow> length bs = calcsize fs \<Longrightarrow>
   unpack_from fs (pre @ bs @ post) offset = Inr (struct_unpack fs bs)"
  by (simp add: unpack_from_def)

section \<open>Facts about the level-up learnset codec\<close>

lemma calcsize_HH [simp]: "calcsize [Fmt_H, Fmt_H] = 4"
  by (simp add: calcsize_def)

lemma unpack_from_HH:
  assumes "offset + 4 \<le> length buffer"
  shows "unpack_from [Fmt_H, Fmt_H] buffer offset =
     Inr [VInt (fst (slot_at buffer offset)), VInt (snd (slot_at buffer offset))]"
proof -
  have "take 2 (take 4 (drop offset buffer)) = take 2 (drop offset buffer)"
    by simp
  moreover have "take 2 (drop 2 (take 4 (drop offset buffer))) = take 2 (drop (offset + 2) buffer)"
    by (simp add: drop_take add.commute)
  ultimately show ?thesis
    using assms by (simp add: unpack_from_def slot_at_def)
qed

lemma unpack_wazaoboe_slots_ok:
  assumes "offset + 4 * n \<le> length buffer"
    and "\<forall>(m, l) \<in> set (raw_slots buffer offset n).
           m \<noteq> 65535 \<and> l \<noteq> 65535 \<longrightarrow> 0 \<le> m \<and> m < int (length (c Moves))"
  shows "unpack_wazaoboe_slots c buffer offset n acc =
     Inr (acc @ map (\<lambda>(m, l). \<lparr> level = l, move = c Moves ! nat m \<rparr>)
            (filter (\<lambda>(m, l). m \<noteq> 65535 \<and> l \<noteq> 65535) (raw_slots buffer offset n)))"
  using assms
proof (induction n arbitrary: offset acc)
  case 0
  then show ?case by simp
next
  case (Suc n)
  obtain m l where s: "slot_at buffer offset = (m, l)"
    by (cases "slot_at buffer offset")
  from Suc.prems(1) have o: "offset + 4 \<le> length buffer" and o': "offset + 4 + 4 * n \<le> length buffer"
    by simp_all
  from Suc.prems(2) have r: "\<forall>(m, l) \<in> set (raw_slots buffer (offset + 4) n).
           m \<noteq> 65535 \<and> l \<noteq> 65535 \<longrightarrow> 0 \<le> m \<and> m < int (length (c Moves))"
    by simp
  note IH = Suc.IH [OF o' r]
  show ?case
  proof (cases "m \<noteq> 65535 \<and> l \<noteq> 65535")
    case True
    with Suc.prems(2) s have "0 \<le> m" "m < int (length (c Moves))"
      by auto
    then have "cnstname c Moves m = Inr (c Moves ! nat m)"
      using cnstname_nat [where c = c and cat = Moves and i = "nat m"] by simp
    with True s IH unpack_from_HH [OF o] show ?thesis
      by (simp add: int_at_def)
  next
    case False
    with s IH unpack_from_HH [OF o] show ?thesis
      by (auto simp add: int_at_def)
  qed
qed

lemma slot_at_nonneg: "0 \<le> fst (slot_at buffer offset) \<and> 0 \<le> snd (slot_at buffer offset)"
  by (simp add: slot_at_def le_int_nonneg)

lemma raw_slots_nonneg: "(m, l) \<in> set (raw_slots buffer offset n) \<Longrightarrow> 0 \<le> m \<and> 0 \<le> l"
proof (induction n arbitrary: offset)
  case 0
  then show ?case by simp
next
  case (Suc n)
  from Suc.prems have "(m, l) = slot_at buffer offset \<or> (m, l) \<in> set (raw_slots buffer (offset + 4) n)"
    by auto
  then show ?case
  proof
    assume eq: "(m, l) = slot_at buffer offset"
    from arg_cong [OF eq, of fst] arg_cong [OF eq, of snd]
    have "m = fst (slot_at buffer offset)" "l = snd (slot_at buffer offset)"
      by simp_all
    with slot_at_nonneg [of buffer offset] show ?thesis by simp
  next
    assume "(m, l) \<in> set (raw_slots buffer (offset + 4) n)"
    then show ?thesis by (rule Suc.IH)
  qed
qed

lemma slot_at_drop: "slot_at buffer (k + offset) = slot_at (drop k buffer) offset"
  by (simp add: slot_at_def add.commute add.left_commute)

lemma raw_slots_drop: "raw_slots buffer (k + offset) n = raw_slots (drop k buffer) offset n"
proof (induction n arbitrary: offset)
  case 0
  then show ?case by simp
next
  case (Suc n)
  from Suc.IH [of "offset + 4"] show ?case
    by (simp add: slot_at_drop add.assoc)
qed

lemma raw_slots_Cons4:
  "0 < n \<Longrightarrow> raw_slots (a # b # c # d # rest) 0 n =
     (uint a + 256 * uint b, uint c + 256 * uint d) # raw_slots rest 0 (n - 1)"
proof -
  assume "0 < n"
  then obtain n' where n: "n = Suc n'" by (cases n) auto
  have "raw_slots (a # b # c # d # rest) (4 + 0) n' = raw_slots (drop 4 (a # b # c # d # rest)) 0 n'"
    by (rule raw_slots_drop)
  with n show ?thesis
    by (simp add: slot_at_def)
qed

lemma slot_at_replicate:
  "offset + 4 \<le> k \<Longrightarrow> slot_at (replicate k 0xFF) offset = (65535, 65535)"
proof -
  assume a: "offset + 4 \<le> k"
  then have "take 2 (replicate (k - offset) (0xFF::byte)) = [0xFF, 0xFF]"
    and "take 2 (replicate (k - (offset + 2)) (0xFF::byte)) = [0xFF, 0xFF]"
    by (simp_all add: numeral_2_eq_2 min_def)
  then show ?thesis
    by (simp add: slot_at_def)
qed

lemma raw_slots_replicate:
  "offset + 4 * n \<le> k \<Longrightarrow> raw_slots (replicate k 0xFF) offset n = replicate n (65535, 65535)"
proof (induction n arbitrary: offset)
  case 0
  then show ?case by simp
next
  case (Suc n)
  from Suc.prems have "offset + 4 \<le> k" "offset + 4 + 4 * n \<le> k" by simp_all
  with Suc.IH [of "offset + 4"] show ?case
    by (simp add: slot_at_replicate)
qed

lemma slot_at_append: "offset + 4 \<le> length xs \<Longrightarrow> slot_at (xs @ ys) offset = slot_at xs offset"
  by (simp add: slot_at_def)

lemma raw_slots_append:
  "offset + 4 * n \<le> length xs \<Longrightarrow> raw_slots (xs @ ys) offset n = raw_slots xs offset n"
proof (induction n arbitrary: offset)
  case 0
  then show ?case by simp
next
  case (Suc n)
  from Suc.prems have "offset + 4 \<le> length xs" "offset + 4 + 4 * n \<le> length xs" by simp_all
  with Suc.IH [of "offset + 4"] show ?case
    by (simp add: slot_at_append)
qed

lemma raw_slots_append2:
  "raw_slots (xs @ ys) (length xs) n = raw_slots ys 0 n"
  using raw_slots_drop [of "xs @ ys" "length xs" 0 n] by simp

lemma dict_set_fresh: "k \<notin> fst ` set d \<Longrightarrow> dict_set d k v = d @ [(k, v)]"
  by (induction d) auto

lemma fold_dict_set_distinct:
  assumes "distinct (map k xs)" and "\<forall>x \<in> set xs. k x \<notin> fst ` set d"
  shows "fold (\<lambda>x d. dict_set d (k x) (v x)) xs d = d @ map (\<lambda>x. (k x, v x)) xs"
  using assms
proof (induction xs arbitrary: d)
  case Nil
  then show ?case by simp
next
  case (Cons x xs)
  from Cons.prems have f: "dict_set d (k x) (v x) = d @ [(k x, v x)]"
    by (simp add: dict_set_fresh)
  from Cons.prems have "distinct (map k xs)"
    and "\<forall>y \<in> set xs. k y \<notin> fst ` set (d @ [(k x, v x)])"
    by (auto intro: rev_image_eqI)
  from Cons.IH [OF this] f show ?case by simp
qed

lemma distinct_map_nth_upt:
  assumes "distinct xs" and "n \<le> length xs"
  shows "distinct (map (\<lambda>i. xs ! i) [0..<n])"
  using assms by (auto simp add: distinct_map inj_on_def nth_eq_iff_index_eq)

lemma unpack_wazaoboe_loop_ok:
  assumes "\<forall>i \<in> set idxs. i < length buffer div 0x104 \<and> i < length (c Pokemon)"
    and "\<forall>i \<in> set idxs. \<forall>(m, l) \<in> set (raw_slots buffer (i * 0x104) 65).
           m \<noteq> 65535 \<and> l \<noteq> 65535 \<longrightarrow> m < int (length (c Moves))"
  shows "unpack_wazaoboe_loop c buffer idxs entries =
     Inr (fold (\<lambda>i d. dict_set d (c Pokemon ! i)
            (map (\<lambda>(m, l). \<lparr> level = l, move = c Moves ! nat m \<rparr>)
               (filter (\<lambda>(m, l). m \<noteq> 65535 \<and> l \<noteq> 65535) (raw_slots buffer (i * 0x104) 65))))
          idxs entries)"
  using assms
proof (induction idxs arbitrary: entries)
  case Nil
  then show ?case by simp
next
  case (Cons i idxs)
  from Cons.prems(1) have i: "i < length buffer div 0x104" "i < length (c Pokemon)"
    by simp_all
  then have o: "i * 0x104 + 4 * 65 \<le> length buffer"
    by simp
  from Cons.prems(2) have "\<forall>(m, l) \<in> set (raw_slots buffer (i * 0x104) 65).
      m \<noteq> 65535 \<and> l \<noteq> 65535 \<longrightarrow> m < int (length (c Moves))"
    by simp
  then have v: "\<forall>(m, l) \<in> set (raw_slots buffer (i * 0x104) 65).
      m \<noteq> 65535 \<and> l \<noteq> 65535 \<longrightarrow> 0 \<le> m \<and> m < int (length (c Moves))"
    using raw_slots_nonneg [of _ _ buffer "i * 0x104" 65] by fast
  note s = unpack_wazaoboe_slots_ok [where c = c and buffer = buffer and offset = "i * 0x104"
      and n = 65 and acc = "[]", OF o v]
  have g: "getitem (c Pokemon) (int i) = Inr (c Pokemon ! i)"
    using i(2) by (simp add: getitem_nat)
  from Cons.prems have "\<forall>i \<in> set idxs. i < length buffer div 0x104 \<and> i < length (c Pokemon)"
    and "\<forall>i \<in> set idxs. \<forall>(m, l) \<in> set (raw_slots buffer (i * 0x104) 65).
           m \<noteq> 65535 \<and> l \<noteq> 65535 \<longrightarrow> m < int (length (c Moves))"
    by simp_all
  note IH = Cons.IH [OF this]
  show ?case
    by (simp only: unpack_wazaoboe_loop.simps s g ebind_Inr IH fold_simps append_Nil)
qed

section \<open>Facts about the level-up learnset encoder\<close>

lemma length_encode_move [simp]: "length (encode_move c e) = 4"
  by (simp add: encode_move_def)

lemma length_concat_encode [simp]: "length (concat (map (encode_move c) ms)) = 4 * length ms"
  by (induction ms) simp_all

lemma struct_pack_HH:
  "0 \<le> m \<Longrightarrow> m < 65536 \<Longrightarrow> 0 \<le> l \<Longrightarrow> l < 65536 \<Longrightarrow>
   struct_pack [Fmt_H, Fmt_H] [VInt m, VInt l] = Inr (le_bytes 2 m @ le_bytes 2 l)"
  by simp

lemma packable_move_D:
  assumes "packable_move c e"
  shows "\<exists>i. cnstval c Moves (move e) = Inr (int i) \<and> list_index (c Moves) (move e) = Some i \<and>
     i < 65536 \<and> i < length (c Moves) \<and> c Moves ! i = move e \<and> 0 \<le> level e \<and> level e < 65536"
  using assms
  by (auto simp add: packable_move_def cnstval_def split: option.splits dest: list_index_Some_D)


lemma pack_move_step:
  assumes "packable_move c e" and "offset + 4 \<le> length buffer"
  shows "\<exists>move_val. cnstval c Moves (move e) = Inr move_val \<and>
           pack_into [Fmt_H, Fmt_H] buffer offset [VInt move_val, VInt (level e)] =
         Inr (take offset buffer @ encode_move c e @ drop (offset + 4) buffer)"
proof -
  from packable_move_D [OF assms(1)] obtain i where
    i: "cnstval c Moves (move e) = Inr (int i)" "list_index (c Moves) (move e) = Some i"
      "i < 65536" "0 \<le> level e" "level e < 65536"
    by blast
  with assms(2) show ?thesis
    by (simp add: pack_into_def encode_move_def struct_pack_HH del: struct_pack.simps)
qed

lemma pack_wazaoboe_moves_ok:
  assumes "\<forall>e \<in> set ms. packable_move c e" and "offset + 4 * length ms \<le> length buffer"
  shows "pack_wazaoboe_moves c ms buffer offset =
     Inr (take offset buffer @ concat (map (encode_move c) ms) @
          drop (offset + 4 * length ms) buffer)"
  using assms
proof (induction ms arbitrary: buffer offset)
  case Nil
  then show ?case by simp
next
  case (Cons e ms)
  let ?b1 = "take offset buffer @ encode_move c e @ drop (offset + 4) buffer"
  from Cons.prems have p: "packable_move c e" and o: "offset + 4 \<le> length buffer"
    by simp_all
  from Cons.prems have l: "offset + 4 + 4 * length ms \<le> length ?b1"
    by simp
  from Cons.prems have "\<forall>e \<in> set ms. packable_move c e" by simp
  note IH = Cons.IH [OF this l]
  have t: "take (offset + 4) ?b1 = take offset buffer @ encode_move c e"
    using o by simp
  have d: "drop (offset + 4 + 4 * length ms) ?b1 = drop (offset + 4 * length (e # ms)) buffer"
  proof -
    have e: "4 * length ms + (offset + 4) = offset + (4 + 4 * length ms)" by simp
    show ?thesis using o by (simp add: e)
  qed
  from pack_move_step [OF p o] have
    "pack_wazaoboe_moves c (e # ms) buffer offset = pack_wazaoboe_moves c ms ?b1 (offset + 4)"
    by auto
  with IH t d show ?case by simp
qed

lemma splice_before:
  "a + n \<le> p \<Longrightarrow> p \<le> length xs \<Longrightarrow> take n (drop a (take p xs @ ys)) = take n (drop a xs)"
  by (simp add: drop_take)

lemma splice_after:
  "p + length R \<le> a \<Longrightarrow> p \<le> length xs \<Longrightarrow>
   drop a (take p xs @ R @ drop (p + length R) xs) = drop a xs"
  by simp

lemma record_at_splice:
  assumes "length buffer = N * 260" and "i < N" and "length E \<le> 260"
  shows "length (take (i * 260) buffer @ E @ drop (i * 260 + length E) buffer) = length buffer"
    and "record_at (take (i * 260) buffer @ E @ drop (i * 260 + length E) buffer) i =
           E @ drop (length E) (record_at buffer i)"
    and "j < N \<Longrightarrow> j \<noteq> i \<Longrightarrow>
         record_at (take (i * 260) buffer @ E @ drop (i * 260 + length E) buffer) j =
           record_at buffer j"
proof -
  from assms(2) have "Suc i \<le> N" by simp
  then have "Suc i * 260 \<le> N * 260" by (rule mult_le_mono1)
  with assms(1) have o: "i * 260 + 260 \<le> length buffer" by simp
  with assms(3) show "length (take (i * 260) buffer @ E @ drop (i * 260 + length E) buffer) = length buffer"
    by simp
  from o assms(3) show "record_at (take (i * 260) buffer @ E @ drop (i * 260 + length E) buffer) i =
           E @ drop (length E) (record_at buffer i)"
    by (simp add: record_at_def drop_take add.commute)
  assume j: "j < N" "j \<noteq> i"
  show "record_at (take (i * 260) buffer @ E @ drop (i * 260 + length E) buffer) j =
           record_at buffer j"
  proof (cases "j < i")
    case True
    then have "Suc j \<le> i" by simp
    then have "Suc j * 260 \<le> i * 260" by (rule mult_le_mono1)
    then have "j * 260 + 260 \<le> i * 260" by simp
    moreover from o have "i * 260 \<le> length buffer" by simp
    ultimately show ?thesis
      unfolding record_at_def by (rule splice_before)
  next
    case False
    with j have "Suc i \<le> j" by simp
    then have "Suc i * 260 \<le> j * 260" by (rule mult_le_mono1)
    with assms(3) have "i * 260 + length E \<le> j * 260" by simp
    moreover from o have "i * 260 \<le> length buffer" by simp
    ultimately have "drop (j * 260) (take (i * 260) buffer @ E @ drop (i * 260 + length E) buffer) =
        drop (j * 260) buffer"
      by (rule splice_after)
    then show ?thesis
      unfolding record_at_def by (rule arg_cong)
  qed
qed

lemma pokemon_index_D:
  assumes "n \<in> set (c Pokemon)"
  shows "cnstval c Pokemon n = Inr (int (pokemon_index c n))"
    and "pokemon_index c n < length (c Pokemon)"
    and "c Pokemon ! pokemon_index c n = n"
  using list_index_mem [OF assms]
  by (auto simp add: pokemon_index_def cnstval_def dest: list_index_Some_D)

lemma pokemon_index_inj:
  "n \<in> set (c Pokemon) \<Longrightarrow> n' \<in> set (c Pokemon) \<Longrightarrow>
   pokemon_index c n = pokemon_index c n' \<Longrightarrow> n = n'"
proof -
  assume a: "n \<in> set (c Pokemon)" "n' \<in> set (c Pokemon)"
    and e: "pokemon_index c n = pokemon_index c n'"
  have "n = c Pokemon ! pokemon_index c n"
    using pokemon_index_D(3) [where c = c and n = n, OF a(1)] by (rule sym)
  also have "\<dots> = c Pokemon ! pokemon_index c n'"
    by (simp only: e)
  also have "\<dots> = n'"
    using a(2) by (rule pokemon_index_D(3) [where c = c and n = n'])
  finally show "n = n'" .
qed

lemma pack_wazaoboe_loop_ok:
  assumes "\<forall>(n, ms) \<in> set entries.
             n \<in> set (c Pokemon) \<and> (\<forall>e \<in> set (take 65 ms). packable_move c e)"
    and "distinct (map fst entries)"
    and "length buffer = length (c Pokemon) * 260"
  shows "\<exists>buffer'.
     pack_wazaoboe_loop c entries (buffer, out) =
       Inr (buffer', out @ map (\<lambda>p. warning (fst p)) (filter (\<lambda>p. 65 < length (snd p)) entries)) \<and>
     length buffer' = length buffer \<and>
     (\<forall>(n, ms) \<in> set entries.
        record_at buffer' (pokemon_index c n) =
          concat (map (encode_move c) (take 65 ms)) @
          drop (4 * length (take 65 ms)) (record_at buffer (pokemon_index c n))) \<and>
     (\<forall>j < length (c Pokemon). j \<notin> pokemon_index c ` fst ` set entries \<longrightarrow>
        record_at buffer' j = record_at buffer j)"
  using assms
proof (induction entries arbitrary: buffer out)
  case Nil
  then show ?case by simp
next
  case (Cons p entries)
  obtain n ms where p: "p = (n, ms)" by (cases p)
  let ?i = "pokemon_index c n"
  let ?ms = "take 65 ms"
  let ?E = "concat (map (encode_move c) ?ms)"
  let ?b1 = "take (?i * 260) buffer @ ?E @ drop (?i * 260 + length ?E) buffer"
  let ?out1 = "if 65 < length ms then out @ [warning n] else out"
  from Cons.prems(1) p have mem: "n \<in> set (c Pokemon)"
    and pk: "\<forall>e \<in> set ?ms. packable_move c e"
    by auto
  note pi = pokemon_index_D [where c = c and n = n, OF mem]
  have lenE: "length ?E \<le> 260" by simp
  note sp = record_at_splice [OF Cons.prems(3) pi(2) lenE]
  from pi(2) have "Suc ?i \<le> length (c Pokemon)" by simp
  then have "Suc ?i * 260 \<le> length (c Pokemon) * 260" by (rule mult_le_mono1)
  with Cons.prems(3) have off: "?i * 260 + 4 * length ?ms \<le> length buffer" by simp
  have mv: "pack_wazaoboe_moves c ?ms buffer (?i * 260) = Inr ?b1"
    using pack_wazaoboe_moves_ok [OF pk off] by simp
  have tk: "take (if 65 < length ms then 65 else length ms) ms = ?ms"
    by simp
  have step: "pack_wazaoboe_loop c (p # entries) (buffer, out) =
      pack_wazaoboe_loop c entries (?b1, ?out1)"
    unfolding p pack_wazaoboe_loop.simps pi(1) ebind_Inr Let_def nat_int fst_conv snd_conv tk mv
    by simp
  from Cons.prems(1) have v: "\<forall>(n, ms) \<in> set entries.
             n \<in> set (c Pokemon) \<and> (\<forall>e \<in> set (take 65 ms). packable_move c e)"
    by simp
  from Cons.prems(2) have d: "distinct (map fst entries)" by simp
  from sp(1) Cons.prems(3) have l: "length ?b1 = length (c Pokemon) * 260" by simp
  from Cons.IH [OF v d l, of ?out1] obtain b2 where
    r: "pack_wazaoboe_loop c entries (?b1, ?out1) =
       Inr (b2, ?out1 @ map (\<lambda>p. warning (fst p)) (filter (\<lambda>p. 65 < length (snd p)) entries))"
    and l2: "length b2 = length ?b1"
    and w: "\<forall>(n, ms) \<in> set entries.
        record_at b2 (pokemon_index c n) =
          concat (map (encode_move c) (take 65 ms)) @
          drop (4 * length (take 65 ms)) (record_at ?b1 (pokemon_index c n))"
    and u: "\<forall>j < length (c Pokemon). j \<notin> pokemon_index c ` fst ` set entries \<longrightarrow>
        record_at b2 j = record_at ?b1 j"
    by blast
  have fresh: "?i \<notin> pokemon_index c ` fst ` set entries"
  proof
    assume "?i \<in> pokemon_index c ` fst ` set entries"
    then obtain n' ms' where e: "(n', ms') \<in> set entries" and i: "?i = pokemon_index c n'"
      by auto
    from e v have "n' \<in> set (c Pokemon)" by auto
    from pokemon_index_inj [where c = c and n = n and n' = n', OF mem this i] have "n = n'" .
    with e have "n \<in> fst ` set entries" by force
    with Cons.prems(2) p show False by simp
  qed
  have r': "pack_wazaoboe_loop c (p # entries) (buffer, out) =
       Inr (b2, out @ map (\<lambda>p. warning (fst p)) (filter (\<lambda>p. 65 < length (snd p)) (p # entries)))"
    unfolding step r using p by simp
  have l': "length b2 = length buffer"
    using l2 sp(1) by simp
  have w': "\<forall>(n', ms') \<in> set (p # entries).
        record_at b2 (pokemon_index c n') =
          concat (map (encode_move c) (take 65 ms')) @
          drop (4 * length (take 65 ms')) (record_at buffer (pokemon_index c n'))"
  proof (intro ballI, clarify)
    fix n' ms'
    assume a: "(n', ms') \<in> set (p # entries)"
    show "record_at b2 (pokemon_index c n') =
          concat (map (encode_move c) (take 65 ms')) @
          drop (4 * length (take 65 ms')) (record_at buffer (pokemon_index c n'))"
    proof (cases "(n', ms') = p")
      case True
      with p have e: "n' = n" "ms' = ms" by simp_all
      from u pi(2) fresh have "record_at b2 ?i = record_at ?b1 ?i" by simp
      with sp(2) show ?thesis unfolding e by simp
    next
      case False
      with a have e: "(n', ms') \<in> set entries" by simp
      with v have m': "n' \<in> set (c Pokemon)" by auto
      from e have "pokemon_index c n' \<in> pokemon_index c ` fst ` set entries"
        by (intro imageI) (rule image_eqI [where x = "(n', ms')"], simp_all)
      with fresh have ne: "pokemon_index c n' \<noteq> ?i" by metis
      from sp(3) [OF pokemon_index_D(2) [where c = c and n = n', OF m'] ne]
      have "record_at ?b1 (pokemon_index c n') = record_at buffer (pokemon_index c n')" .
      with w e show ?thesis by auto
    qed
  qed
  have u': "\<forall>j < length (c Pokemon). j \<notin> pokemon_index c ` fst ` set (p # entries) \<longrightarrow>
        record_at b2 j = record_at buffer j"
  proof (intro allI impI)
    fix j
    assume j: "j < length (c Pokemon)" and n: "j \<notin> pokemon_index c ` fst ` set (p # entries)"
    from n p have ne: "j \<noteq> ?i" and n2: "j \<notin> pokemon_index c ` fst ` set entries"
      by auto
    from u j n2 have "record_at b2 j = record_at ?b1 j" by simp
    also from sp(3) [OF j ne] have "\<dots> = record_at buffer j" .
    finally show "record_at b2 j = record_at buffer j" .
  qed
  from r' l' w' u' show ?case by blast
qed

lemma record_at_replicate:
  assumes "j < N"
  shows "record_at (replicate (N * 260) x) j = replicate 260 x"
proof -
  from assms have "Suc j \<le> N" by simp
  then have "Suc j * 260 \<le> N * 260" by (rule mult_le_mono1)
  then have "260 \<le> N * 260 - j * 260" by simp
  then show ?thesis
    by (simp add: record_at_def min_def)
qed

lemma pack_wazaoboe_ok:
  assumes "\<forall>(n, ms) \<in> set entries.
             n \<in> set (c Pokemon) \<and> (\<forall>e \<in> set (take 65 ms). packable_move c e)"
    and "distinct (map fst entries)"
  shows "\<exists>buffer.
     pack_wazaoboe c entries =
       Inr (buffer, map (\<lambda>p. warning (fst p)) (filter (\<lambda>p. 65 < length (snd p)) entries)) \<and>
     length buffer = length (c Pokemon) * 260 \<and>
     (\<forall>(n, ms) \<in> set entries.
        record_at buffer (pokemon_index c n) =
          concat (map (encode_move c) (take 65 ms)) @
          replicate (260 - 4 * length (take 65 ms)) 0xFF) \<and>
     (\<forall>j < length (c Pokemon). j \<notin> pokemon_index c ` fst ` set entries \<longrightarrow>
        record_at buffer j = replicate 260 0xFF)"
proof -
  let ?b0 = "replicate (length (c Pokemon) * 260) (0xFF :: byte)"
  have "length ?b0 = length (c Pokemon) * 260" by simp
  from pack_wazaoboe_loop_ok [OF assms this, of "[]"] obtain buffer where
    r: "pack_wazaoboe_loop c entries (?b0, []) =
       Inr (buffer, map (\<lambda>p. warning (fst p)) (filter (\<lambda>p. 65 < length (snd p)) entries))"
    and l: "length buffer = length ?b0"
    and w: "\<forall>(n, ms) \<in> set entries.
        record_at buffer (pokemon_index c n) =
          concat (map (encode_move c) (take 65 ms)) @
          drop (4 * length (take 65 ms)) (record_at ?b0 (pokemon_index c n))"
    and u: "\<forall>j < length (c Pokemon). j \<notin> pokemon_index c ` fst ` set entries \<longrightarrow>
        record_at buffer j = record_at ?b0 j"
    by auto
  have w': "\<forall>(n, ms) \<in> set entries.
        record_at buffer (pokemon_index c n) =
          concat (map (encode_move c) (take 65 ms)) @
          replicate (260 - 4 * length (take 65 ms)) 0xFF"
  proof (intro ballI, clarify)
    fix n ms
    assume e: "(n, ms) \<in> set entries"
    with assms(1) have "n \<in> set (c Pokemon)" by auto
    from record_at_replicate [OF pokemon_index_D(2) [where c = c and n = n, OF this]]
    have "record_at ?b0 (pokemon_index c n) = replicate 260 0xFF" .
    with w e show "record_at buffer (pokemon_index c n) =
          concat (map (encode_move c) (take 65 ms)) @
          replicate (260 - 4 * length (take 65 ms)) 0xFF"
      by auto
  qed
  from r l w' u show ?thesis
    by (auto simp add: pack_wazaoboe_def record_at_replicate)
qed










section \<open>Hexadecimal text and bit fields\<close>

lemma hexdigits_all:
  "\<forall>n \<in> set [0..<16]. hexval (hexdigits ! n) = Some n \<and> \<not> isspace (hexdigits ! n)"
  by code_simp

lemma hexdigits_ok: "n < 16 \<Longrightarrow> hexval (hexdigits ! n) = Some n \<and> \<not> isspace (hexdigits ! n)"
  using hexdigits_all by simp

lemma byte_nibbles_all:
  "\<forall>n \<in> set [0..<256]. unat (drop_bit 4 (of_nat n :: byte)) < 16 \<and>
     unat ((of_nat n :: byte) AND 15) < 16 \<and>
     (of_nat (16 * unat (drop_bit 4 (of_nat n :: byte)) + unat ((of_nat n :: byte) AND 15)) :: byte) =
       of_nat n"
  by code_simp

lemma byte_nibbles:
  "unat (drop_bit 4 (b :: byte)) < 16 \<and> unat (b AND 15) < 16 \<and>
   (of_nat (16 * unat (drop_bit 4 b) + unat (b AND 15)) :: byte) = b"
proof -
  have "unat b < 256"
    using unsigned_less [of b] by simp
  then have "unat b \<in> set [0..<256]" by simp
  from bspec [OF byte_nibbles_all this] show ?thesis
    by simp
qed

lemma fromhex_hex: "fromhex (hex bs) = Inr bs"
proof (induction bs)
  case Nil
  then show ?case by (simp add: hex_def)
next
  case (Cons b bs)
  from byte_nibbles [of b] have n: "unat (drop_bit 4 b) < 16" "unat (b AND 15) < 16"
    and e: "(of_nat (16 * unat (drop_bit 4 b) + unat (b AND 15)) :: byte) = b"
    by simp_all
  from hexdigits_ok [OF n(1)] hexdigits_ok [OF n(2)] e Cons.IH show ?case
    by (simp add: hex_def)
qed

lemma pokedex_bits_all:
  "\<forall>x \<in> set (map int [0..<256]).
     (x AND 0x3F) OR (if x AND 0x40 \<noteq> 0 then 0x40 else 0) OR (if x AND 0x80 \<noteq> 0 then 0x80 else 0) = x"
  by code_simp

lemma pokedex_bits_roundtrip:
  assumes "0 \<le> x" and "x < 256"
  shows "(x AND 0x3F) OR (if x AND 0x40 \<noteq> 0 then 0x40 else 0) OR
     (if x AND 0x80 \<noteq> 0 then 0x80 else 0) = (x :: int)"
proof -
  from assms have "x \<in> int ` set [0..<256]"
    by (intro image_eqI [where x = "nat x"]) simp_all
  then have "x \<in> set (map int [0..<256])" by (simp only: set_map)
  from bspec [OF pokedex_bits_all this] show ?thesis .
qed

lemma and_3_take_bit: "(y :: int) AND 3 = take_bit 2 y"
  by (simp add: take_bit_eq_mask mask_eq_exp_minus_1)

lemma bit_push_take_drop:
  "bit (push_bit k (take_bit 2 (drop_bit k (x :: int)))) n \<longleftrightarrow> k \<le> n \<and> n < k + 2 \<and> bit x n"
  by (auto simp add: bit_simps)

lemma bit_push_flag:
  "bit (push_bit k (if b then 1 else 0 :: int)) n \<longleftrightarrow> b \<and> n = k"
  by (auto simp add: bit_simps)

lemma ev_yield_roundtrip:
  assumes "0 \<le> x" and "x < 0x2000"
  shows "(x AND 3) OR push_bit 2 (drop_bit 2 x AND 3) OR push_bit 4 (drop_bit 4 x AND 3)
       OR push_bit 6 (drop_bit 6 x AND 3) OR push_bit 8 (drop_bit 8 x AND 3)
       OR push_bit 10 (drop_bit 10 x AND 3)
       OR push_bit 12 (if drop_bit 12 x AND 3 \<noteq> 0 then 1 else 0) = (x :: int)"
proof -
  from assms have "take_bit 13 x = x"
    by (simp add: take_bit_int_eq_self)
  then have hi: "\<not> bit x n" if "13 \<le> n" for n
    using that bit_take_bit_iff [of 13 x n] by simp
  have t: "take_bit 2 (drop_bit 12 x) = (if bit x 12 then 1 else 0)"
  proof (rule bit_eqI)
    fix n :: nat
    show "bit (take_bit 2 (drop_bit 12 x)) n = bit (if bit x 12 then 1 else 0 :: int) n"
    proof (cases "n = 0")
      case True
      then show ?thesis by (simp add: bit_simps)
    next
      case False
      then have "n = 1 \<or> 2 \<le> n" by auto
      with False hi [of 13] show ?thesis by (auto simp add: bit_simps)
    qed
  qed
  have c: "(take_bit 2 (drop_bit 12 x) \<noteq> 0) = bit x 12"
    unfolding t by simp
  show ?thesis
    unfolding and_3_take_bit c
  proof (rule bit_eqI)
    fix n :: nat
    consider "n < 2" | "2 \<le> n" "n < 4" | "4 \<le> n" "n < 6" | "6 \<le> n" "n < 8"
      | "8 \<le> n" "n < 10" | "10 \<le> n" "n < 12" | "n = 12" | "13 \<le> n"
      by linarith
    then show "bit (take_bit 2 x OR push_bit 2 (take_bit 2 (drop_bit 2 x)) OR
          push_bit 4 (take_bit 2 (drop_bit 4 x)) OR push_bit 6 (take_bit 2 (drop_bit 6 x)) OR
          push_bit 8 (take_bit 2 (drop_bit 8 x)) OR push_bit 10 (take_bit 2 (drop_bit 10 x)) OR
          push_bit 12 (if bit x 12 then 1 else 0)) n = bit x n"
      by cases (auto simp add: bit_or_iff bit_push_take_drop bit_push_flag bit_take_bit_iff hi
          simp del: push_bit_take_bit push_bit_of_1)
  qed
qed

lemma flags_roundtrip:
  assumes "x \<in> {0, 1, 4, 5}"
  shows "(if x AND 1 \<noteq> 0 then 1 else 0) OR (if x AND 4 \<noteq> 0 then 4 else 0) = (x :: int)"
  using assms by auto

section \<open>Facts about the creature codec\<close>

lemma pack_parse_learnset_bits:
  assumes n: "length bits = n" and len: "length (c cat) \<le> 8 * n"
    and consistent: "\<forall>i < length (c cat). \<forall>j < length (c cat). c cat ! i = c cat ! j \<longrightarrow>
        (bit (bits ! (i div 8)) (i mod 8) \<longleftrightarrow> bit (bits ! (j div 8)) (j mod 8))"
    and zero: "\<forall>i < 8 * n. length (c cat) \<le> i \<longrightarrow> \<not> bit (bits ! (i div 8)) (i mod 8)"
    and parse: "parse_learnset_bits c cat bits = Inr sel"
  shows "pack_learnset_bits c sel cat n = Inr bits"
proof -
  from len n have "length (c cat) \<le> 8 * length bits" by simp
  from parse_learnset_bits_filter [where c = c and cat = cat and bits = bits, OF this] parse
  have sel: "sel = map snd (filter (\<lambda>(i, m). bit (bits ! (i div 8)) (i mod 8)) (enumerate 0 (c cat)))"
    by simp
  have mem: "m \<in> set sel \<longleftrightarrow> (\<exists>i < length (c cat). c cat ! i = m \<and> bit (bits ! (i div 8)) (i mod 8))"
    for m
    unfolding sel by (auto simp add: in_set_enumerate_eq image_iff)
  from pack_learnset_bits_ok [where c = c and cat = cat and n = n and sel = sel, OF len]
  obtain bits' where p: "pack_learnset_bits c sel cat n = Inr bits'" and n': "length bits' = n"
    and bi: "\<And>i. i < 8 * n \<Longrightarrow>
      bit (bits' ! (i div 8)) (i mod 8) \<longleftrightarrow> i < length (c cat) \<and> c cat ! i \<in> set sel"
    by blast
  have "bits' = bits"
  proof (rule nth_equalityI)
    show "length bits' = length bits" using n n' by simp
  next
    fix j
    assume "j < length bits'"
    with n' have j: "j < n" by simp
    show "bits' ! j = bits ! j"
    proof (rule bit_eqI)
      fix k :: nat
      assume "possible_bit TYPE(byte) k"
      then have k: "k < 8" by (simp add: possible_bit_word)
      let ?i = "8 * j + k"
      from j k have i: "?i < 8 * n" by simp
      from k have d: "?i div 8 = j" "?i mod 8 = k" by simp_all
      from bi [OF i] have "bit (bits' ! j) k \<longleftrightarrow> ?i < length (c cat) \<and> c cat ! ?i \<in> set sel"
        unfolding d .
      also have "\<dots> \<longleftrightarrow> bit (bits ! j) k"
      proof (cases "?i < length (c cat)")
        case True
        have "bit (bits ! (i' div 8)) (i' mod 8) \<longleftrightarrow> bit (bits ! j) k"
          if "i' < length (c cat)" "c cat ! i' = c cat ! ?i" for i'
          using consistent [rule_format, of i' ?i] that True by (simp only: d)
        with True show ?thesis
          unfolding mem by (simp only: d) metis
      next
        case False
        then have "length (c cat) \<le> ?i" by simp
        with zero i have "\<not> bit (bits ! (?i div 8)) (?i mod 8)" by blast
        then have "\<not> bit (bits ! j) k" by (simp only: d not_False_eq_True)
        with False show ?thesis by blast
      qed
      finally show "bit (bits' ! j) k \<longleftrightarrow> bit (bits ! j) k" .
    qed
  qed
  with p show ?thesis by simp
qed

lemma PERSONAL_ENTRY_STRUCT_list:
  "PERSONAL_ENTRY_STRUCT =
     [Fmt_B, Fmt_B, Fmt_B, Fmt_B, Fmt_B, Fmt_B, Fmt_B, Fmt_B, Fmt_B, Fmt_B,
      Fmt_H, Fmt_H, Fmt_H, Fmt_H, Fmt_B, Fmt_B, Fmt_B, Fmt_B, Fmt_B, Fmt_B,
      Fmt_H, Fmt_H, Fmt_H, Fmt_H, Fmt_B, Fmt_B, Fmt_H, Fmt_H, Fmt_H,
      Fmt_s 16, Fmt_s 4, Fmt_s 16, Fmt_I,
      Fmt_H, Fmt_H, Fmt_H, Fmt_H, Fmt_H, Fmt_H, Fmt_H, Fmt_H,
      Fmt_s 72, Fmt_s 4, Fmt_H, Fmt_H]"
  by code_simp

lemma conforms_all_B:
  "conforms_all (Fmt_B # fs) vs \<longleftrightarrow>
     (\<exists>v vs'. vs = VInt v # vs' \<and> 0 \<le> v \<and> v < 256 \<and> conforms_all fs vs')"
  by (cases vs; cases "hd vs") auto

lemma conforms_all_H:
  "conforms_all (Fmt_H # fs) vs \<longleftrightarrow>
     (\<exists>v vs'. vs = VInt v # vs' \<and> 0 \<le> v \<and> v < 65536 \<and> conforms_all fs vs')"
  by (cases vs; cases "hd vs") auto

lemma conforms_all_I:
  "conforms_all (Fmt_I # fs) vs \<longleftrightarrow>
     (\<exists>v vs'. vs = VInt v # vs' \<and> 0 \<le> v \<and> v < 4294967296 \<and> conforms_all fs vs')"
  by (cases vs; cases "hd vs") auto

lemma conforms_all_s:
  "conforms_all (Fmt_s n # fs) vs \<longleftrightarrow>
     (\<exists>bs vs'. vs = VBytes bs # vs' \<and> length bs = n \<and> conforms_all fs vs')"
  by (cases vs; cases "hd vs") auto

lemma conforms_all_Nil: "conforms_all [] vs \<longleftrightarrow> vs = []"
  by simp

lemma personal_args_tuple:
  assumes "conforms_all PERSONAL_ENTRY_STRUCT vals"
  shows "personal_args (personal_tuple vals) = vals"
  using assms unfolding PERSONAL_ENTRY_STRUCT_list
  by (clarsimp simp add: conforms_all_B conforms_all_H conforms_all_I conforms_all_s
      personal_args_def personal_tuple_def int_at_def bytes_at_def
      simp del: conforms_all.simps) simp

section \<open>The bit-flag set codec\<close>

text \<open>
  Claim C3. For a master list that fits the bit buffer (\<open>length (c cat) \<le> 8 * nbytes\<close>, as
  it does for a buffer of \<open>ceil(N/8)\<close> bytes) and a selection \<open>S\<close> of names of that list,
  \<^verbatim>\<open>pack_learnset_bits\<close> returns a buffer of \<open>nbytes\<close> bytes in which bit \<open>i & 7\<close> of byte
  \<open>i >> 3\<close> is set exactly when \<open>i\<close> is a position of the master list whose name is in \<open>S\<close>;
  \<^verbatim>\<open>parse_learnset_bits\<close> of that buffer returns the names of \<open>S\<close>; and any other list with
  the same elements as \<open>S\<close>, in whatever order, packs to the same buffer. The source calls
  the pair for \<^verbatim>\<open>tms\<close>, \<^verbatim>\<open>trs\<close>, \<^verbatim>\<open>move_tutors\<close>, \<^verbatim>\<open>armor_tutors\<close> with 16, 16, 4, 4 bytes.
\<close>

theorem learnset_bits_roundtrip:
  assumes "length (c cat) \<le> 8 * nbytes" and "set S \<subseteq> set (c cat)"
  shows "\<exists>bits. pack_learnset_bits c S cat nbytes = Inr bits \<and> length bits = nbytes
     \<and> (\<forall>i < 8 * nbytes. bit (bits ! drop_bit 3 i) (i AND 7) \<longleftrightarrow>
           i < length (c cat) \<and> c cat ! i \<in> set S)
     \<and> (\<exists>r. parse_learnset_bits c cat bits = Inr r \<and> set r = set S)
     \<and> (\<forall>S'. set S' = set S \<longrightarrow> pack_learnset_bits c S' cat nbytes = Inr bits)"
proof -
  from pack_learnset_bits_ok [where c = c and cat = cat and n = nbytes and sel = S] assms(1)
  obtain bits where
    b: "pack_learnset_bits c S cat nbytes = Inr bits" "length bits = nbytes"
    and bi: "\<forall>i < 8 * nbytes. bit (bits ! (i div 8)) (i mod 8) \<longleftrightarrow>
      i < length (c cat) \<and> c cat ! i \<in> set S"
    by blast
  have p: "parse_learnset_bits c cat bits = Inr (filter (\<lambda>m. m \<in> set S) (c cat))"
    using parse_pack_learnset_bits [where c = c and cat = cat and n = nbytes] assms(1) b(1)
    by simp
  have s: "set (filter (\<lambda>m. m \<in> set S) (c cat)) = set S"
    using assms(2) by auto
  have o: "\<forall>S'. set S' = set S \<longrightarrow> pack_learnset_bits c S' cat nbytes = Inr bits"
  proof (intro allI impI)
    fix S' :: "string list"
    assume "set S' = set S"
    from pack_learnset_loop_set [OF this] b(1)
    show "pack_learnset_bits c S' cat nbytes = Inr bits"
      by (simp add: pack_learnset_bits_def)
  qed
  from b bi p s o show ?thesis
    by (simp add: nat_drop_bit_3 nat_and_7)
qed

theorem learnset_bits_roundtrip_witness:
  "length (example_constants Tms) \<le> 8 * 16 \<and>
   set [''Tackle'', ''Pound''] \<subseteq> set (example_constants Tms) \<and>
   pack_learnset_bits example_constants [''Tackle'', ''Pound''] Tms 16 =
     Inr (3 # replicate 15 0) \<and>
   pack_learnset_bits example_constants [''Pound'', ''Tackle''] Tms 16 =
     Inr (3 # replicate 15 0) \<and>
   (\<exists>r. parse_learnset_bits example_constants Tms (3 # replicate 15 0) = Inr r \<and>
        set r = set [''Tackle'', ''Pound''])"
proof -
  have h1: "length (example_constants Tms) \<le> 8 * 16"
    by (simp add: example_constants_def)
  have h2: "set [''Tackle'', ''Pound''] \<subseteq> set (example_constants Tms)"
    by (simp add: example_constants_def)
  have e: "pack_learnset_bits example_constants [''Tackle'', ''Pound''] Tms 16 =
      Inr (3 # replicate 15 0)"
    by code_simp
  from learnset_bits_roundtrip [where c = example_constants and cat = Tms and nbytes = 16
      and S = "[''Tackle'', ''Pound'']", OF h1 h2]
  obtain bits where
    b: "pack_learnset_bits example_constants [''Tackle'', ''Pound''] Tms 16 = Inr bits"
    and r: "\<exists>r. parse_learnset_bits example_constants Tms bits = Inr r \<and>
      set r = set [''Tackle'', ''Pound'']"
    and o: "\<forall>S'. set S' = set [''Tackle'', ''Pound''] \<longrightarrow>
      pack_learnset_bits example_constants S' Tms 16 = Inr bits"
    by blast
  from b e have bits: "bits = 3 # replicate 15 0" by simp
  have "set [''Pound'', ''Tackle''] = set [''Tackle'', ''Pound'']" by auto
  with o have "pack_learnset_bits example_constants [''Pound'', ''Tackle''] Tms 16 = Inr bits"
    by blast
  with h1 h2 e r bits show ?thesis by simp
qed

section \<open>Lookup failures\<close>

text \<open>
  Claim C5, as the code has it. \<^verbatim>\<open>cnstname\<close> is a list subscript: it raises \<^verbatim>\<open>IndexError\<close>,
  which is a \<^verbatim>\<open>LookupError\<close>, for every index out of the range of the category
  (\<open>i \<ge> len\<close>, or \<open>i < -len\<close>). \<^verbatim>\<open>cnstval\<close> is \<^verbatim>\<open>list.index\<close>: for every name that is not
  an element of the category (compared as it is, so a name in another case is absent) it
  raises \<^verbatim>\<open>ValueError\<close>, which is not a \<^verbatim>\<open>LookupError\<close>. Decoding a blob in which some
  record has a \<^verbatim>\<open>type_1\<close> or \<^verbatim>\<open>type_2\<close> code without a name fails with \<^verbatim>\<open>IndexError\<close>.
  Encoding an entry whose \<^verbatim>\<open>type_1\<close> is absent from the category fails with \<^verbatim>\<open>ValueError\<close>
  (the four learnset master lists fitting their bit buffers of 16, 16, 4 and 4 bytes): so
  does the encoding of a collection, when the entries before that one encode; and wherever
  the entry stands in the collection, no blob is returned.
\<close>

theorem lookup_failures:
  "(int (length (c cat)) \<le> i \<or> i < - int (length (c cat)) \<longrightarrow>
      cnstname c cat i = Inl IndexError \<and> is_LookupError IndexError) \<and>
   (name \<notin> set (c cat) \<longrightarrow>
      cnstval c cat name = Inl ValueError \<and> \<not> is_LookupError ValueError) \<and>
   (k < length buffer div 0xB0 \<and>
    unpack_from PERSONAL_ENTRY_STRUCT buffer (k * 0xB0) = Inr vals \<and>
    (int (length (c Types)) \<le> raw_type_1 (personal_tuple vals) \<or>
     int (length (c Types)) \<le> raw_type_2 (personal_tuple vals)) \<longrightarrow>
      unpack_personal c buffer = Inl IndexError) \<and>
   (type_1 entry \<notin> set (c Types) \<and>
    length (c Tms) \<le> 128 \<and> length (c Trs) \<le> 128 \<and>
    length (c Move_tutors) \<le> 32 \<and> length (c Armor_tutors) \<le> 32 \<longrightarrow>
      personal_raw_of c entry = Inl ValueError \<and>
      (\<forall>pre post b. pack_personal c pre = Inr b \<longrightarrow>
         pack_personal c (pre @ (pokemon_name, entry) # post) = Inl ValueError) \<and>
      (\<forall>entries. (pokemon_name, entry) \<in> set entries \<longrightarrow>
         (\<exists>err. pack_personal c entries = Inl err)))"
proof (intro conjI impI allI)
  assume "int (length (c cat)) \<le> i \<or> i < - int (length (c cat))"
  then show "cnstname c cat i = Inl IndexError"
    by (auto simp add: cnstname_def getitem_high getitem_low)
next
  show "is_LookupError IndexError" by simp
next
  assume "name \<notin> set (c cat)"
  then show "cnstval c cat name = Inl ValueError"
    by (rule cnstval_absent)
next
  show "\<not> is_LookupError ValueError" by simp
next
  assume a: "k < length buffer div 0xB0 \<and>
    unpack_from PERSONAL_ENTRY_STRUCT buffer (k * 0xB0) = Inr vals \<and>
    (int (length (c Types)) \<le> raw_type_1 (personal_tuple vals) \<or>
     int (length (c Types)) \<le> raw_type_2 (personal_tuple vals))"
  then have e: "personal_entry_of c (personal_tuple vals) = Inl IndexError"
    using personal_entry_of_bad_type [of c "personal_tuple vals"]
      personal_entry_of_bad_type_2 [of c "personal_tuple vals"]
    by blast
  have "\<forall>i \<in> set [0..<length buffer div 176]. i * 176 + 176 \<le> length buffer"
    by auto
  moreover from a have "k \<in> set [0..<length buffer div 176]"
    by simp
  ultimately show "unpack_personal c buffer = Inl IndexError"
    using a e unpack_personal_loop_bad_type [where c = c and buffer = buffer and k = k
        and vals = vals and idxs = "[0..<length buffer div 176]" and entries = "[]"]
    by (simp add: unpack_personal_def)
next
  assume a: "type_1 entry \<notin> set (c Types) \<and>
    length (c Tms) \<le> 128 \<and> length (c Trs) \<le> 128 \<and>
    length (c Move_tutors) \<le> 32 \<and> length (c Armor_tutors) \<le> 32"
  then show "personal_raw_of c entry = Inl ValueError"
    by (simp add: personal_raw_of_absent_type_fit)
  {
    fix pre post b
    assume "pack_personal c pre = Inr b"
    with a show "pack_personal c (pre @ (pokemon_name, entry) # post) = Inl ValueError"
      by (simp add: pack_personal_def pack_personal_loop_append
          personal_raw_of_absent_type_fit)
  }
  {
    fix entries
    assume "(pokemon_name, entry) \<in> set entries"
    with a show "\<exists>err. pack_personal c entries = Inl err"
      using pack_personal_loop_absent_type [where c = c and entry = entry
          and pokemon_name = pokemon_name and entries = entries]
      by (simp add: pack_personal_def)
  }
qed

theorem lookup_failures_witness:
  "cnstname example_constants Types 2 = Inl IndexError \<and>
   cnstval example_constants Types ''fire'' = Inl ValueError \<and>
   unpack_personal example_constants (BLANK_PRSNL_ENTRY[7 := 5]) = Inl IndexError \<and>
   personal_raw_of example_constants (example_entry\<lparr>type_1 := ''Water''\<rparr>) = Inl ValueError \<and>
   pack_personal example_constants
     ([] @ (''Bulbasaur'', example_entry\<lparr>type_1 := ''Water''\<rparr>) # [(''Egg'', example_entry)]) =
     Inl ValueError \<and>
   (\<exists>err. pack_personal example_constants
            [(''Egg'', example_entry), (''Bulbasaur'', example_entry\<lparr>type_1 := ''Water''\<rparr>)] =
          Inl err)"
proof -
  let ?buffer = "BLANK_PRSNL_ENTRY[7 := 5]"
  let ?vals = "struct_unpack PERSONAL_ENTRY_STRUCT ?buffer"
  let ?entry = "example_entry\<lparr>type_1 := ''Water''\<rparr>"
  have len: "length ?buffer = 176"
    by simp
  have h1: "int (length (example_constants Types)) \<le> 2"
    by (simp add: example_constants_def)
  have h2: "''fire'' \<notin> set (example_constants Types)"
    by (simp add: example_constants_def)
  have h3: "(0::nat) < length ?buffer div 0xB0"
    by simp
  have h4: "unpack_from PERSONAL_ENTRY_STRUCT ?buffer (0 * 0xB0) = Inr ?vals"
    by (simp add: unpack_from_def)
  have h5: "int (length (example_constants Types)) \<le> raw_type_2 (personal_tuple ?vals)"
    by code_simp
  have h6: "(''Bulbasaur'', ?entry) \<in> set [(''Egg'', example_entry), (''Bulbasaur'', ?entry)]"
    by simp
  have h7: "type_1 ?entry \<notin> set (example_constants Types)"
    by (simp add: example_constants_def)
  have h8: "length (example_constants Tms) \<le> 128 \<and> length (example_constants Trs) \<le> 128 \<and>
    length (example_constants Move_tutors) \<le> 32 \<and> length (example_constants Armor_tutors) \<le> 32"
    by (simp add: example_constants_def)
  have h9: "pack_personal example_constants [] =
      Inr (concat (replicate (length (example_constants Pokemon)) BLANK_PRSNL_ENTRY))"
    by (simp add: pack_personal_def)
  from lookup_failures [where c = example_constants and cat = Types and i = 2 and name = "''fire''"
      and k = 0 and buffer = ?buffer and vals = ?vals and pokemon_name = "''Bulbasaur''"
      and entry = ?entry]
    h1 h2 h3 h4 h5 h6 h7 h8 h9
  show ?thesis by blast
qed

theorem cnstval_absent_name_counterexample:
  "cnstval example_constants Types ''Water'' = Inl ValueError \<and>
   pack_personal example_constants [(''Bulbasaur'', example_entry\<lparr>type_1 := ''Water''\<rparr>)] =
     Inl ValueError \<and>
   \<not> is_LookupError ValueError"
proof -
  have "''Water'' \<notin> set (example_constants Types)"
    by (simp add: example_constants_def)
  then have "cnstval example_constants Types ''Water'' = Inl ValueError"
    by (rule cnstval_absent)
  moreover have "personal_raw_of example_constants (example_entry\<lparr>type_1 := ''Water''\<rparr>) =
      Inl ValueError"
    by (rule personal_raw_of_absent_type_fit) (simp_all add: example_constants_def)
  then have "pack_personal example_constants
      [(''Bulbasaur'', example_entry\<lparr>type_1 := ''Water''\<rparr>)] = Inl ValueError"
    by (simp add: pack_personal_def)
  ultimately show ?thesis by simp
qed

section \<open>Level-up learnset decode\<close>

text \<open>
  Claim C6. \<^verbatim>\<open>unpack_wazaoboe\<close> decodes every record \<open>i\<close> of a level-up blob by reading its 65
  slots in order, whatever they hold, and gives the creature \<open>i\<close> of the registry, in slot
  order, one entry for each slot in which neither raw code is the sentinel \<open>0xFFFF\<close>; every
  other slot, wherever it lies, contributes nothing and does not stop the scan. The dict is
  built by assigning the records in order; when the creature names are distinct it has one
  item per record. (A record beyond the registry, or an emitted move code without a name,
  makes a lookup fail, hence the two hypotheses.)
\<close>

theorem unpack_wazaoboe_sentinel:
  assumes "length buffer div 0x104 \<le> length (c Pokemon)"
    and "\<forall>i < length buffer div 0x104. \<forall>(m, l) \<in> set (raw_slots buffer (i * 0x104) 65).
           m \<noteq> 65535 \<and> l \<noteq> 65535 \<longrightarrow> m < int (length (c Moves))"
  shows "unpack_wazaoboe c buffer =
       Inr (fold (\<lambda>i d. dict_set d (c Pokemon ! i)
              (map (\<lambda>(m, l). \<lparr> level = l, move = c Moves ! nat m \<rparr>)
                 (filter (\<lambda>(m, l). m \<noteq> 65535 \<and> l \<noteq> 65535) (raw_slots buffer (i * 0x104) 65))))
            [0..<length buffer div 0x104] [])
     \<and> (distinct (c Pokemon) \<longrightarrow>
        unpack_wazaoboe c buffer =
          Inr (map (\<lambda>i. (c Pokemon ! i,
                 map (\<lambda>(m, l). \<lparr> level = l, move = c Moves ! nat m \<rparr>)
                   (filter (\<lambda>(m, l). m \<noteq> 65535 \<and> l \<noteq> 65535) (raw_slots buffer (i * 0x104) 65))))
               [0..<length buffer div 0x104]))"
proof -
  let ?n = "length buffer div 0x104"
  let ?dec = "\<lambda>i. map (\<lambda>(m, l). \<lparr> level = l, move = c Moves ! nat m \<rparr>)
                 (filter (\<lambda>(m, l). m \<noteq> 65535 \<and> l \<noteq> 65535) (raw_slots buffer (i * 0x104) 65))"
  have a: "\<forall>i \<in> set [0..<?n]. i < length buffer div 0x104 \<and> i < length (c Pokemon)"
    using assms(1) by auto
  have b: "\<forall>i \<in> set [0..<?n]. \<forall>(m, l) \<in> set (raw_slots buffer (i * 0x104) 65).
           m \<noteq> 65535 \<and> l \<noteq> 65535 \<longrightarrow> m < int (length (c Moves))"
    using assms(2) by simp
  have f: "unpack_wazaoboe c buffer = Inr (fold (\<lambda>i d. dict_set d (c Pokemon ! i) (?dec i)) [0..<?n] [])"
    unfolding unpack_wazaoboe_def
    by (rule unpack_wazaoboe_loop_ok [OF a b])
  have m: "fold (\<lambda>i d. dict_set d (c Pokemon ! i) (?dec i)) [0..<?n] [] =
      map (\<lambda>i. (c Pokemon ! i, ?dec i)) [0..<?n]" if "distinct (c Pokemon)"
    using fold_dict_set_distinct [where k = "\<lambda>i. c Pokemon ! i" and v = ?dec and xs = "[0..<?n]"
        and d = "[]", OF distinct_map_nth_upt [OF that assms(1)]]
    by simp
  from f m show ?thesis
    by simp
qed

theorem unpack_wazaoboe_sentinel_witness:
  "unpack_wazaoboe example_constants
     ((1 # 0 # 5 # 0 # 0xFF # 0xFF # 0xFF # 0xFF # 2 # 0 # 7 # 0 # 0xFF # 0xFF # 9 # 0 #
       replicate 244 0xFF) @
      (0xFF # 0xFF # 0xFF # 0xFF # 1 # 0 # 0xFF # 0xFF # 2 # 0 # 1 # 0 #
       replicate 248 0xFF)) =
   Inr [(''Egg'', [\<lparr> level = 5, move = ''Pound'' \<rparr>, \<lparr> level = 7, move = ''Tackle'' \<rparr>]),
        (''Bulbasaur'', [\<lparr> level = 1, move = ''Tackle'' \<rparr>])]"
proof -
  let ?r0 = "1 # 0 # 5 # 0 # 0xFF # 0xFF # 0xFF # 0xFF # 2 # 0 # 7 # 0 # 0xFF # 0xFF # 9 # 0 #
      replicate 244 (0xFF :: byte)"
  let ?r1 = "0xFF # 0xFF # 0xFF # 0xFF # 1 # 0 # 0xFF # 0xFF # 2 # 0 # 1 # 0 #
      replicate 248 (0xFF :: byte)"
  let ?buffer = "?r0 @ ?r1"
  have l0: "length ?r0 = 260" by simp
  have n: "length ?buffer div 0x104 = 2" by simp
  have u: "[0..<2] = [0, 1]" by (simp add: numeral_2_eq_2 upt_rec)
  have "raw_slots ?buffer 0 65 = raw_slots ?r0 0 65"
    by (rule raw_slots_append) simp
  then have s0: "raw_slots ?buffer (0 * 0x104) 65 =
      [(1, 5), (65535, 65535), (2, 7), (65535, 9)] @ replicate 61 (65535, 65535)"
    by (simp add: raw_slots_Cons4 raw_slots_replicate)
  have "raw_slots ?buffer (length ?r0) 65 = raw_slots ?r1 0 65"
    by (rule raw_slots_append2)
  then have s1: "raw_slots ?buffer (1 * 0x104) 65 =
      [(65535, 65535), (1, 65535), (2, 1)] @ replicate 62 (65535, 65535)"
    by (simp add: raw_slots_Cons4 raw_slots_replicate)
  have h1: "length ?buffer div 0x104 \<le> length (example_constants Pokemon)"
    unfolding n by (simp add: example_constants_def)
  have h2: "\<forall>i < length ?buffer div 0x104. \<forall>(m, l) \<in> set (raw_slots ?buffer (i * 0x104) 65).
      m \<noteq> 65535 \<and> l \<noteq> 65535 \<longrightarrow> m < int (length (example_constants Moves))"
    unfolding n
  proof (intro allI impI)
    fix i :: nat
    assume "i < 2"
    then have "i = 0 \<or> i = 1" by auto
    then show "\<forall>(m, l) \<in> set (raw_slots ?buffer (i * 0x104) 65).
      m \<noteq> 65535 \<and> l \<noteq> 65535 \<longrightarrow> m < int (length (example_constants Moves))"
    proof
      assume "i = 0"
      then show ?thesis using s0 by (simp add: example_constants_def)
    next
      assume "i = 1"
      then show ?thesis using s1 by (simp add: example_constants_def)
    qed
  qed
  have d: "distinct (example_constants Pokemon)"
    by (simp add: example_constants_def)
  from unpack_wazaoboe_sentinel [where c = example_constants and buffer = ?buffer, OF h1 h2] d
  have "unpack_wazaoboe example_constants ?buffer =
          Inr (map (\<lambda>i. (example_constants Pokemon ! i,
                 map (\<lambda>(m, l). \<lparr> level = l, move = example_constants Moves ! nat m \<rparr>)
                   (filter (\<lambda>(m, l). m \<noteq> 65535 \<and> l \<noteq> 65535) (raw_slots ?buffer (i * 0x104) 65))))
               [0..<length ?buffer div 0x104])"
    by blast
  then show ?thesis
    unfolding n u using s0 s1 by (simp add: example_constants_def)
qed

section \<open>Level-up learnset encode: truncation\<close>



section \<open>Level-up learnset encode: layout of the blob\<close>

text \<open>
  Claim C10. Whatever creatures the input holds, \<^verbatim>\<open>pack_wazaoboe\<close> returns a blob of
  \<open>len(pokemon) * 0x104\<close> bytes; the moves written for a creature start at the byte offset
  \<open>index * 0x104\<close>, where \<open>index\<close> is the position of the creature's name in the
  \<^verbatim>\<open>pokemon\<close> category; and every record whose index is that of no creature of the input is
  \<open>0x104\<close> bytes \<open>0xFF\<close>. The input is a JSON object, so its keys are distinct; its creature
  names are in the registry, and the moves written have a name in the registry and codes
  that fit 16 bits (otherwise a lookup or \<^verbatim>\<open>struct.pack_into\<close> raises).
\<close>

theorem pack_wazaoboe_layout:
  assumes "\<forall>(n, ms) \<in> set entries.
             n \<in> set (c Pokemon) \<and> (\<forall>e \<in> set (take 65 ms). packable_move c e)"
    and "distinct (map fst entries)"
  shows "\<exists>buffer printed.
     pack_wazaoboe c entries = Inr (buffer, printed) \<and>
     length buffer = length (c Pokemon) * 0x104 \<and>
     (\<forall>(n, ms) \<in> set entries.
        take (4 * length (take 65 ms)) (drop (pokemon_index c n * 0x104) buffer) =
          concat (map (encode_move c) (take 65 ms))) \<and>
     (\<forall>j < length (c Pokemon). j \<notin> pokemon_index c ` fst ` set entries \<longrightarrow>
        take 0x104 (drop (j * 0x104) buffer) = replicate 0x104 0xFF)"
proof -
  from pack_wazaoboe_ok [OF assms] obtain buffer where
    r: "pack_wazaoboe c entries =
       Inr (buffer, map (\<lambda>p. warning (fst p)) (filter (\<lambda>p. 65 < length (snd p)) entries))"
    and l: "length buffer = length (c Pokemon) * 260"
    and w: "\<forall>(n, ms) \<in> set entries.
        record_at buffer (pokemon_index c n) =
          concat (map (encode_move c) (take 65 ms)) @
          replicate (260 - 4 * length (take 65 ms)) 0xFF"
    and u: "\<forall>j < length (c Pokemon). j \<notin> pokemon_index c ` fst ` set entries \<longrightarrow>
        record_at buffer j = replicate 260 0xFF"
    by blast
  have w': "\<forall>(n, ms) \<in> set entries.
        take (4 * length (take 65 ms)) (drop (pokemon_index c n * 0x104) buffer) =
          concat (map (encode_move c) (take 65 ms))"
  proof (intro ballI, clarify)
    fix n ms
    assume "(n, ms) \<in> set entries"
    with w have e: "take 260 (drop (pokemon_index c n * 260) buffer) =
          concat (map (encode_move c) (take 65 ms)) @
          replicate (260 - 4 * length (take 65 ms)) 0xFF"
      unfolding record_at_def by blast
    have "take (4 * length (take 65 ms)) (drop (pokemon_index c n * 260) buffer) =
        take (4 * length (take 65 ms)) (take 260 (drop (pokemon_index c n * 260) buffer))"
      by (simp add: min_def)
    also have "\<dots> = concat (map (encode_move c) (take 65 ms))"
      unfolding e by simp
    finally show "take (4 * length (take 65 ms)) (drop (pokemon_index c n * 0x104) buffer) =
          concat (map (encode_move c) (take 65 ms))" .
  qed
  from r l w' u show ?thesis
    unfolding record_at_def by blast
qed

theorem pack_wazaoboe_layout_witness:
  "\<exists>buffer printed.
     pack_wazaoboe example_constants
       [(''Ivysaur'', [\<lparr> level = 5, move = ''Tackle'' \<rparr>, \<lparr> level = 9, move = ''Pound'' \<rparr>])] =
       Inr (buffer, printed) \<and>
     length buffer = 3 * 0x104 \<and>
     take 8 (drop (2 * 0x104) buffer) = [2, 0, 5, 0, 1, 0, 9, 0] \<and>
     take 0x104 (drop (0 * 0x104) buffer) = replicate 0x104 0xFF \<and>
     take 0x104 (drop (1 * 0x104) buffer) = replicate 0x104 0xFF"
proof -
  let ?a = "\<lparr> level = 5, move = ''Tackle'' \<rparr>"
  let ?b = "\<lparr> level = 9, move = ''Pound'' \<rparr>"
  let ?entries = "[(''Ivysaur'', [?a, ?b])]"
  have va: "packable_move example_constants ?a" and vb: "packable_move example_constants ?b"
    by (simp_all add: packable_move_def example_constants_def)
  have h1: "\<forall>(n, ms) \<in> set ?entries.
      n \<in> set (example_constants Pokemon) \<and>
      (\<forall>e \<in> set (take 65 ms). packable_move example_constants e)"
    using va vb by (simp add: example_constants_def)
  have h2: "distinct (map fst ?entries)"
    by simp
  have i2: "pokemon_index example_constants ''Ivysaur'' = 2"
    by (simp_all add: pokemon_index_def example_constants_def)
  have ea: "encode_move example_constants ?a = [2, 0, 5, 0]"
    and eb: "encode_move example_constants ?b = [1, 0, 9, 0]"
    by (simp_all add: encode_move_def example_constants_def numeral_2_eq_2)
  have p: "length (example_constants Pokemon) = 3"
    by (simp add: example_constants_def)
  from pack_wazaoboe_layout [where c = example_constants and entries = ?entries, OF h1 h2]
  obtain buffer printed where
    r: "pack_wazaoboe example_constants ?entries = Inr (buffer, printed)"
    and l: "length buffer = length (example_constants Pokemon) * 0x104"
    and w: "\<forall>(n, ms) \<in> set ?entries.
        take (4 * length (take 65 ms)) (drop (pokemon_index example_constants n * 0x104) buffer) =
          concat (map (encode_move example_constants) (take 65 ms))"
    and u: "\<forall>j < length (example_constants Pokemon).
        j \<notin> pokemon_index example_constants ` fst ` set ?entries \<longrightarrow>
        take 0x104 (drop (j * 0x104) buffer) = replicate 0x104 0xFF"
    by blast
  from w have w': "take 8 (drop (2 * 0x104) buffer) = [2, 0, 5, 0, 1, 0, 9, 0]"
    by (simp add: i2 ea eb)
  from u [rule_format, of 0] have u0: "take 0x104 (drop (0 * 0x104) buffer) = replicate 0x104 0xFF"
    by (simp add: p i2)
  from u [rule_format, of 1] have u1: "take 0x104 (drop (1 * 0x104) buffer) = replicate 0x104 0xFF"
    by (simp add: p i2)
  from r l w' u0 u1 show ?thesis
    unfolding p by blast
qed

section \<open>The EV-yield field\<close>

text \<open>
  Claim C4 at a failing input. The blob is one record, the blank template with byte
  \<open>0x0B\<close> set to \<open>0x20\<close>, so that the EV-yield field (bytes \<open>0x0A\<close> and \<open>0x0B\<close>, little
  endian) is \<open>0x2000\<close>: bit 13 is set and bit 12 is clear. \<^verbatim>\<open>unpack_personal\<close> gives
  \<^verbatim>\<open>fail_telekinesis = true\<close> for it, because it tests \<^verbatim>\<open>(ev_yield >> 12) & 3\<close>, that is
  bits 12 and 13, whereas \<^verbatim>\<open>pack_personal\<close> writes the flag to bit 12 only.
\<close>

theorem unpack_personal_telekinesis_bit_13:
  "raw_ev_yield (personal_tuple (struct_unpack PERSONAL_ENTRY_STRUCT
       (BLANK_PRSNL_ENTRY[11 := 0x20]))) = 0x2000 \<and>
   \<not> bit (0x2000 :: int) 12 \<and>
   map_sum id (map (\<lambda>p. (fst p, fail_telekinesis (snd p))))
     (unpack_personal example_constants (BLANK_PRSNL_ENTRY[11 := 0x20])) = Inr [(''Egg'', True)]"
  by code_simp

section \<open>Where the creature encoder writes\<close>

text \<open>
  Claim C8 at a failing input. \<^verbatim>\<open>pack_personal\<close> never looks at the key of an entry: the
  entries are written one after the other from offset 0, in the order of the input.
\<close>

lemma pack_personal_loop_ignores_names:
  "pack_personal_loop c (map (\<lambda>(n, e). (f n, e)) entries) buffer offset =
   pack_personal_loop c entries buffer offset"
proof (induction entries arbitrary: buffer offset)
  case Nil
  then show ?case by simp
next
  case (Cons p entries)
  obtain n e where p: "p = (n, e)" by (cases p)
  show ?case
  proof (cases "personal_raw_of c e")
    case (Inl err)
    with p show ?thesis by simp
  next
    case (Inr r)
    show ?thesis
    proof (cases "pack_into PERSONAL_ENTRY_STRUCT buffer offset (personal_args r)")
      case (Inl err)
      with Inr p show ?thesis by simp
    next
      case Inr2: (Inr buffer')
      with Inr p Cons.IH [of buffer' "offset + 176"] show ?thesis by simp
    qed
  qed
qed

lemma pack_personal_ignores_names:
  "pack_personal c (map (\<lambda>(n, e). (f n, e)) entries) = pack_personal c entries"
  by (simp add: pack_personal_def pack_personal_loop_ignores_names)

text \<open>
  With the registry \<^verbatim>\<open>pokemon = [Egg, Bulbasaur, Ivysaur]\<close> and the single entry of
  \<^verbatim>\<open>Ivysaur\<close>, whose index is 2, the blob returned has the blank template in record 2 and
  the entry in record 0, which differs from the template.
\<close>

theorem pack_personal_writes_first_record:
  "cnstval example_constants Pokemon ''Ivysaur'' = Inr 2 \<and>
   map_sum id (\<lambda>b. (take 0xB0 (drop (2 * 0xB0) b) = BLANK_PRSNL_ENTRY,
                      take 0xB0 (drop (0 * 0xB0) b) = BLANK_PRSNL_ENTRY))
     (pack_personal example_constants [(''Ivysaur'', example_entry)]) = Inr (True, False)"
  by code_simp

end
